theory Spec2Isabelle
  imports Complex_Main "HOL-Library.Word" "HOL-Library.Monad_Syntax"
begin

section \<open>Conventions of the embedding\<close>

text \<open>
  The program is JavaScript. Its numbers are modelled as mathematical reals: rounding of
  IEEE doubles and of \<^verbatim>\<open>Float32Array\<close> cells is not part of the model. A value that is
  \<^verbatim>\<open>undefined\<close> or \<^verbatim>\<open>NaN\<close> in the program (an out-of-range read of a typed array and
  everything computed from it) is \<open>None\<close> in a \<open>real option\<close>. Bytes of a
  \<^verbatim>\<open>Uint8ClampedArray\<close> are \<open>8 word\<close>. Mutable objects become records that every
  operation takes and returns.

  The repository holds three successive versions of filters.js and two of app.js. The
  model follows the last version of filters.js (the one with the LUT looks; \<open>resize\<close>,
  \<open>drawMirrored\<close>, \<open>renderPixelate\<close>, \<open>renderEdge\<close> and \<open>sobelEdge\<close> are the same in all
  three) and the version of app.js whose clap detector has the threshold 0.16.
\<close>

section \<open>Clap gesture detector (app.js, createClapDetector)\<close>

record clapState =
  belowSince :: "real option"
  cooldownUntil :: real
  inClapZone :: bool

definition thresholdRel :: real where
  "thresholdRel = 0.16"

definition minDurationMs :: real where
  "minDurationMs = 90"

definition cooldownMs :: real where
  "cooldownMs = 650"

definition hysteresisUp :: real where
  "hysteresisUp = thresholdRel * 1.35"

definition createClapDetector :: clapState where
  "createClapDetector = \<lparr>belowSince = None, cooldownUntil = 0, inClapZone = False\<rparr>"

text \<open>
  \<open>update s distNorm bothHands now\<close> is one call of the detector's \<^verbatim>\<open>update\<close> method in
  state \<open>s\<close>: the returned flag and the state it leaves. The branches are in the order of
  the source; \<^verbatim>\<open>belowSince == null\<close> is \<open>belowSince s = None\<close>.
\<close>

definition update :: "clapState \<Rightarrow> real \<Rightarrow> bool \<Rightarrow> real \<Rightarrow> bool \<times> clapState" where
  "update s distNorm bothHands now =
     (if \<not> bothHands then (False, s\<lparr>belowSince := None, inClapZone := False\<rparr>)
      else if now < cooldownUntil s then (False, s)
      else if \<not> inClapZone s \<and> distNorm < thresholdRel then
        (let since = (case belowSince s of None \<Rightarrow> now | Some t \<Rightarrow> t);
             s1 = s\<lparr>belowSince := Some since\<rparr>
         in if now - since \<ge> minDurationMs
            then (True, s1\<lparr>inClapZone := True, cooldownUntil := now + cooldownMs,
                            belowSince := None\<rparr>)
            else (False, s1))
      else if inClapZone s \<and> distNorm > hysteresisUp then (False, s\<lparr>inClapZone := False\<rparr>)
      else if \<not> inClapZone s \<and> distNorm \<ge> thresholdRel then (False, s\<lparr>belowSince := None\<rparr>)
      else (False, s))"

text \<open>A call is its three arguments; a run threads the state through a list of calls.\<close>

type_synonym clapCall = "real \<times> bool \<times> real"

definition updateCall :: "clapState \<Rightarrow> clapCall \<Rightarrow> bool \<times> clapState" where
  "updateCall s c = (case c of (distNorm, bothHands, now) \<Rightarrow> update s distNorm bothHands now)"

fun stateAfter :: "clapState \<Rightarrow> clapCall list \<Rightarrow> clapState" where
  "stateAfter s [] = s"
| "stateAfter s (c # cs) = stateAfter (snd (updateCall s c)) cs"

fun updates :: "clapState \<Rightarrow> clapCall list \<Rightarrow> bool list" where
  "updates s [] = []"
| "updates s (c # cs) = fst (updateCall s c) # updates (snd (updateCall s c)) cs"

text \<open>
  \<open>clears s c\<close>: the call \<open>c\<close>, made in state \<open>s\<close>, has \<^verbatim>\<open>bothHands\<close> false, or comes at or
  after the cooldown deadline of \<open>s\<close> with a distance strictly above \<open>hysteresisUp\<close>.
\<close>

definition clears :: "clapState \<Rightarrow> clapCall \<Rightarrow> bool" where
  "clears s c = (case c of (distNorm, bothHands, now) \<Rightarrow>
     \<not> bothHands \<or> (cooldownUntil s \<le> now \<and> distNorm > hysteresisUp))"

section \<open>Point smoother (app.js, makePointSmoother)\<close>

text \<open>
  The closure's variables \<^verbatim>\<open>alpha\<close> and \<^verbatim>\<open>pt\<close> are the fields of the record; a point
  \<^verbatim>\<open>{x, y}\<close> is a pair. The argument of \<open>makePointSmoother\<close> is \<open>None\<close> when the caller
  passes none, and the default parameter value of the source then applies.
\<close>

record smoother =
  alpha :: real
  pt :: "(real \<times> real) option"

definition makePointSmoother :: "real option \<Rightarrow> smoother" where
  "makePointSmoother a = \<lparr>alpha = (case a of None \<Rightarrow> 0.5 | Some v \<Rightarrow> v), pt = None\<rparr>"

definition push :: "smoother \<Rightarrow> real \<Rightarrow> real \<Rightarrow> (real \<times> real) \<times> smoother" where
  "push sm x y =
     (let p = (case pt sm of
                 None \<Rightarrow> (x, y)
               | Some (sx, sy) \<Rightarrow> (sx * (1 - alpha sm) + x * alpha sm,
                                  sy * (1 - alpha sm) + y * alpha sm))
      in (p, sm\<lparr>pt := Some p\<rparr>))"

definition get :: "smoother \<Rightarrow> (real \<times> real) option" where
  "get sm = pt sm"

definition reset :: "smoother \<Rightarrow> smoother" where
  "reset sm = sm\<lparr>pt := None\<rparr>"

definition leftSmoother :: smoother where
  "leftSmoother = makePointSmoother (Some 0.4)"

definition rightSmoother :: smoother where
  "rightSmoother = makePointSmoother (Some 0.4)"

section \<open>Colour utilities (filters.js)\<close>

definition clamp01 :: "real \<Rightarrow> real" where
  "clamp01 x = (if x < 0 then 0 else if x > 1 then 1 else x)"

definition mix :: "real \<Rightarrow> real \<Rightarrow> real \<Rightarrow> real" where
  "mix a b t = a + (b - a) * t"

text \<open>
  \<open>rgbToHsl\<close> and \<open>hslToRgb\<close> return the three-element array of the source as a triple.
  The \<^verbatim>\<open>switch (max)\<close> compares with \<^verbatim>\<open>===\<close> and takes the first case that matches.
  On the unit cube no divisor below is zero: the saturation is only computed when
  \<open>mx \<noteq> mn\<close>, and \<open>2 - mx - mn = 0\<close> needs \<open>mx = mn = 1\<close>.
\<close>

definition rgbToHsl :: "real \<Rightarrow> real \<Rightarrow> real \<Rightarrow> real \<times> real \<times> real" where
  "rgbToHsl r g b =
     (let mx = max r (max g b); mn = min r (min g b); l = (mx + mn) / 2
      in if mx \<noteq> mn then
           (let d = mx - mn;
                s = (if l > 0.5 then d / (2 - mx - mn) else d / (mx - mn));
                h = (if mx = r then (g - b) / d + (if g < b then 6 else 0)
                     else if mx = g then (b - r) / d + 2
                     else if mx = b then (r - g) / d + 4
                     else 0)
            in (h / 6, s, l))
         else (0, 0, l))"

definition hue2rgb :: "real \<Rightarrow> real \<Rightarrow> real \<Rightarrow> real" where
  "hue2rgb p q t0 =
     (let t1 = (if t0 < 0 then t0 + 1 else t0);
          t = (if t1 > 1 then t1 - 1 else t1)
      in if t < 1/6 then p + (q - p) * 6 * t
         else if t < 1/2 then q
         else if t < 2/3 then p + (q - p) * (2/3 - t) * 6
         else p)"

definition hslToRgb :: "real \<Rightarrow> real \<Rightarrow> real \<Rightarrow> real \<times> real \<times> real" where
  "hslToRgb h s l =
     (if s = 0 then (l, l, l)
      else (let q = (if l < 0.5 then l * (1 + s) else l + s - l * s);
                p = 2 * l - q
            in (hue2rgb p q (h + 1/3), hue2rgb p q h, hue2rgb p q (h - 1/3))))"

definition luma :: "real \<Rightarrow> real \<Rightarrow> real \<Rightarrow> real" where
  "luma r g b = 0.2126 * r + 0.7152 * g + 0.0722 * b"

definition sCurve :: "real \<Rightarrow> real \<Rightarrow> real" where
  "sCurve x c = (let k = 1 + c; y = (x - 0.5) * k + 0.5 in clamp01 y)"

section \<open>Typed-array reads\<close>

text \<open>
  Reading a typed array outside its bounds gives \<^verbatim>\<open>undefined\<close>, which every later
  arithmetic operation turns into \<^verbatim>\<open>NaN\<close>: \<open>rd\<close> returns \<open>None\<close> there. Writing outside
  the bounds is ignored, which is what \<open>xs[i := v]\<close> does.
\<close>

definition rd :: "'a list \<Rightarrow> int \<Rightarrow> 'a option" where
  "rd xs i = (if 0 \<le> i \<and> i < int (length xs) then Some (xs ! nat i) else None)"

section \<open>LUT engine (filters.js)\<close>

record lut3d =
  lut_size :: nat
  lut_data :: "real list"

text \<open>
  \<open>generate3DLUT\<close>: the three nested loops append the clamped channels of each grid point
  in the order of the running \<^verbatim>\<open>idx++\<close>. The grid coordinate divides by \<open>n - 1\<close>; for
  \<open>n = 1\<close> the program computes \<^verbatim>\<open>0/0 = NaN\<close> where HOL has \<open>0\<close>, so the definition
  stands for the program for \<open>n \<noteq> 1\<close> only (the program builds every table with
  \<open>LUT_SIZE = 17\<close>).
\<close>

definition lutCell ::
  "nat \<Rightarrow> (real \<Rightarrow> real \<Rightarrow> real \<Rightarrow> real \<times> real \<times> real) \<Rightarrow> nat \<Rightarrow> nat \<Rightarrow> nat \<Rightarrow> real list" where
  "lutCell n transformFn ri gi bi =
     (let r = real ri / (real n - 1);
          g = real gi / (real n - 1);
          b = real bi / (real n - 1)
      in case transformFn r g b of
           (o0, o1, o2) \<Rightarrow> [clamp01 o0, clamp01 o1, clamp01 o2])"

definition generate3DLUT ::
  "nat \<Rightarrow> (real \<Rightarrow> real \<Rightarrow> real \<Rightarrow> real \<times> real \<times> real) \<Rightarrow> lut3d" where
  "generate3DLUT n transformFn =
     \<lparr>lut_size = n,
      lut_data = concat (map (\<lambda>ri. concat (map (\<lambda>gi. concat (map (\<lambda>bi.
                   lutCell n transformFn ri gi bi) [0..<n])) [0..<n])) [0..<n])\<rparr>"

text \<open>
  \<open>sampleLUT3D\<close>. \<open>axisCell n v\<close> is one axis of the source's first lines: the scaled
  coordinate \<open>vf\<close>, the lower plane \<open>\<lfloor>vf\<rfloor>\<close>, the upper plane \<open>min (n - 1) (\<lfloor>vf\<rfloor> + 1)\<close> and
  the fraction \<open>vf - \<lfloor>vf\<rfloor>\<close>. \<open>lutIdx\<close> is the source's \<^verbatim>\<open>idx\<close>. \<open>mixU\<close> is \<open>mix\<close> on
  operands that may be \<^verbatim>\<open>NaN\<close>.
\<close>

definition axisCell :: "int \<Rightarrow> real \<Rightarrow> int \<times> int \<times> real" where
  "axisCell n v =
     (let vf = v * real_of_int (n - 1);
          v0 = \<lfloor>vf\<rfloor>;
          v1 = min (n - 1) (v0 + 1)
      in (v0, v1, vf - real_of_int v0))"

definition lutIdx :: "int \<Rightarrow> int \<Rightarrow> int \<Rightarrow> int \<Rightarrow> int" where
  "lutIdx n ri gi bi = ((ri * n + gi) * n + bi) * 3"

definition mixU :: "real option \<Rightarrow> real option \<Rightarrow> real \<Rightarrow> real option" where
  "mixU a b t = (case a of None \<Rightarrow> None
                 | Some x \<Rightarrow> (case b of None \<Rightarrow> None | Some y \<Rightarrow> Some (mix x y t)))"

definition lerp3 ::
  "real list \<Rightarrow> int \<Rightarrow> int \<Rightarrow> real \<Rightarrow> real option \<times> real option \<times> real option" where
  "lerp3 d i0 i1 t =
     (mixU (rd d i0) (rd d i1) t,
      mixU (rd d (i0 + 1)) (rd d (i1 + 1)) t,
      mixU (rd d (i0 + 2)) (rd d (i1 + 2)) t)"

definition mix3 ::
  "real option \<times> real option \<times> real option \<Rightarrow> real option \<times> real option \<times> real option
   \<Rightarrow> real \<Rightarrow> real option \<times> real option \<times> real option" where
  "mix3 u v t = (case u of (u0, u1, u2) \<Rightarrow> (case v of (v0, v1, v2) \<Rightarrow>
     (mixU u0 v0 t, mixU u1 v1 t, mixU u2 v2 t)))"

definition sampleLUT3D ::
  "lut3d \<Rightarrow> real \<Rightarrow> real \<Rightarrow> real \<Rightarrow> real option \<times> real option \<times> real option" where
  "sampleLUT3D lut r g b =
     (let n = int (lut_size lut); d = lut_data lut
      in case axisCell n r of (r0, r1, tr) \<Rightarrow>
         case axisCell n g of (g0, g1, tg) \<Rightarrow>
         case axisCell n b of (b0, b1, tb) \<Rightarrow>
         (let c000 = lutIdx n r0 g0 b0;
              c100 = lutIdx n r1 g0 b0;
              c010 = lutIdx n r0 g1 b0;
              c110 = lutIdx n r1 g1 b0;
              c001 = lutIdx n r0 g0 b1;
              c101 = lutIdx n r1 g0 b1;
              c011 = lutIdx n r0 g1 b1;
              c111 = lutIdx n r1 g1 b1;
              x00 = lerp3 d c000 c100 tr;
              x10 = lerp3 d c010 c110 tr;
              x01 = lerp3 d c001 c101 tr;
              x11 = lerp3 d c011 c111 tr;
              y0 = mix3 x00 x10 tg;
              y1 = mix3 x01 x11 tg
          in mix3 y0 y1 tb))"

text \<open>
  \<open>inUnit v\<close>: \<open>v\<close> is a number (not \<^verbatim>\<open>NaN\<close>) in \<open>[0, 1]\<close>; \<open>unit3\<close> says so of the
  three channels of a sample.
\<close>

definition inUnit :: "real option \<Rightarrow> bool" where
  "inUnit v = (case v of None \<Rightarrow> False | Some x \<Rightarrow> 0 \<le> x \<and> x \<le> 1)"

definition unit3 :: "real option \<times> real option \<times> real option \<Rightarrow> bool" where
  "unit3 u = (case u of (x, y, z) \<Rightarrow> inUnit x \<and> inUnit y \<and> inUnit z)"

section \<open>Looks (filters.js)\<close>

text \<open>
  \<^verbatim>\<open>Math.pow\<close> with a fractional exponent is \<open>powr\<close>; the two agree on a base \<open>\<ge> 0\<close>,
  which is what the luma of a grid point of the unit cube gives. The reassigned
  variables \<^verbatim>\<open>r\<close>, \<^verbatim>\<open>g\<close>, \<^verbatim>\<open>b\<close> of the source are numbered.
\<close>

definition highsSafe :: "real \<Rightarrow> real" where
  "highsSafe y = y powr 1.2"

definition lookWongKarWaiNeon :: "real \<Rightarrow> real \<Rightarrow> real \<Rightarrow> real \<times> real \<times> real" where
  "lookWongKarWaiNeon r g b =
     (let y = luma r g b;
          shadows = (1 - y) powr 1.25;
          highs = y powr 1.5;
          r1 = r + (-0.02 * shadows + 0.06 * highs);
          g1 = g + (0.08 * shadows + 0.03 * highs);
          b1 = b + (0.06 * shadows - 0.03 * highs);
          r2 = sCurve r1 0.25;
          g2 = sCurve g1 0.25;
          b2 = sCurve b1 0.25
      in case rgbToHsl (clamp01 r2) (clamp01 g2) (clamp01 b2) of
           (h, s, l) \<Rightarrow> hslToRgb h (clamp01 (s * 1.25)) (clamp01 (l * 0.98 + 0.01)))"

definition lookWesAndersonPastel :: "real \<Rightarrow> real \<Rightarrow> real \<Rightarrow> real \<times> real \<times> real" where
  "lookWesAndersonPastel r g b =
     (case rgbToHsl r g b of
        (h, s, l) \<Rightarrow>
          (let l1 = mix l (0.5 + (l - 0.5) * 0.8) 0.6;
               l2 = l1 * 0.95 + 0.03;
               s1 = clamp01 (s * 0.9 + 0.05)
           in case hslToRgb h s1 l2 of
                (rr, gg, bb) \<Rightarrow>
                  (let y = luma rr gg bb;
                       warm = y powr 1.2
                   in (clamp01 (rr + 0.04 * warm), clamp01 (gg + 0.02 * warm),
                       clamp01 (bb - 0.015 * warm)))))"

definition lookWesAndersonVintageWarm :: "real \<Rightarrow> real \<Rightarrow> real \<Rightarrow> real \<times> real \<times> real" where
  "lookWesAndersonVintageWarm r g b =
     (let y = luma r g b;
          lift = 0.05;
          r1 = mix r (r + lift) 0.3;
          g1 = mix g (g + lift) 0.25;
          b1 = mix b (b + lift) 0.15;
          highs = y powr 1.4;
          r2 = r1 + 0.05 * highs;
          g2 = g1 + 0.025 * highs;
          b2 = b1 - 0.02 * highs
      in case rgbToHsl (clamp01 r2) (clamp01 g2) (clamp01 b2) of
           (h, s, l) \<Rightarrow> hslToRgb h (clamp01 (s * 0.92)) (clamp01 (l * 1.02)))"

definition lookWongKarWaiVerdant :: "real \<Rightarrow> real \<Rightarrow> real \<Rightarrow> real \<times> real \<times> real" where
  "lookWongKarWaiVerdant r g b =
     (let y = luma r g b;
          shadows = (1 - y) powr 1.3;
          mids = (1 - \<bar>y - 0.5\<bar> * 2) powr 1.5;
          g1 = g + (0.06 * mids + 0.05 * shadows);
          r1 = r + (0.01 * mids - 0.02 * shadows);
          b1 = b - (0.01 * mids + 0.015 * highsSafe y);
          r2 = sCurve r1 0.15;
          g2 = sCurve g1 0.15;
          b2 = sCurve b1 0.15
      in case rgbToHsl (clamp01 r2) (clamp01 g2) (clamp01 b2) of
           (h, s, l) \<Rightarrow> hslToRgb h (clamp01 (s * 0.95)) (clamp01 (l * 0.98 + 0.01)))"

definition LUT_SIZE :: nat where
  "LUT_SIZE = 17"

definition makeLUT_WKW_Neon :: "unit \<Rightarrow> lut3d" where
  "makeLUT_WKW_Neon = (\<lambda>_. generate3DLUT LUT_SIZE lookWongKarWaiNeon)"

definition makeLUT_WKW_Verdant :: "unit \<Rightarrow> lut3d" where
  "makeLUT_WKW_Verdant = (\<lambda>_. generate3DLUT LUT_SIZE lookWongKarWaiVerdant)"

definition makeLUT_WA_Pastel :: "unit \<Rightarrow> lut3d" where
  "makeLUT_WA_Pastel = (\<lambda>_. generate3DLUT LUT_SIZE lookWesAndersonPastel)"

definition makeLUT_WA_Vintage :: "unit \<Rightarrow> lut3d" where
  "makeLUT_WA_Vintage = (\<lambda>_. generate3DLUT LUT_SIZE lookWesAndersonVintageWarm)"

section \<open>Filter descriptors (filters.js, FilterList)\<close>

text \<open>
  A descriptor is a JavaScript object; a property it does not have is \<open>None\<close>. The
  property \<^verbatim>\<open>value\<close> is the field \<open>cssValue\<close>. The display name, which only the user
  interface reads, is left out.
\<close>

record filterMeta =
  key :: string
  kind :: string
  cssValue :: "string option"
  makeLUT :: "(unit \<Rightarrow> lut3d) option"
  strength :: "real option"

definition FilterList :: "filterMeta list" where
  "FilterList =
     [\<lparr>key = ''normal'', kind = ''css'', cssValue = Some ''none'', makeLUT = None,
       strength = None\<rparr>,
      \<lparr>key = ''wkw_neon'', kind = ''lut'', cssValue = None,
       makeLUT = Some makeLUT_WKW_Neon, strength = Some 1.0\<rparr>,
      \<lparr>key = ''wkw_verdant'', kind = ''lut'', cssValue = None,
       makeLUT = Some makeLUT_WKW_Verdant, strength = Some 0.95\<rparr>,
      \<lparr>key = ''wes_pastel'', kind = ''lut'', cssValue = None,
       makeLUT = Some makeLUT_WA_Pastel, strength = Some 0.95\<rparr>,
      \<lparr>key = ''wes_vintage'', kind = ''lut'', cssValue = None,
       makeLUT = Some makeLUT_WA_Vintage, strength = Some 0.95\<rparr>]"

section \<open>Images and the canvas\<close>

text \<open>
  An \<^verbatim>\<open>ImageData\<close> object is its width, its height and its flat RGBA byte array. The
  bitmap of a canvas is modelled as such an image too, and the canvas calls of the
  program by what they do to the bitmap under the identity transform with opaque
  sources (video frames are opaque, so drawing one replaces what the canvas held):
  \<open>pixelAt\<close> reads a pixel and is transparent black outside the image,
  \<open>mkImage\<close> lays pixels out row by row, \<open>getImageData\<close> copies the region at the origin,
  \<open>putImageData\<close> overwrites the part of the canvas that the image covers.
\<close>

type_synonym byte = "8 word"

type_synonym pixel = "byte \<times> byte \<times> byte \<times> byte"

record ImageData =
  width :: nat
  height :: nat
  data :: "byte list"

definition byteAt :: "byte list \<Rightarrow> nat \<Rightarrow> byte" where
  "byteAt d i = (case rd d (int i) of None \<Rightarrow> 0 | Some v \<Rightarrow> v)"

definition pixelAt :: "ImageData \<Rightarrow> nat \<Rightarrow> nat \<Rightarrow> pixel" where
  "pixelAt img x y =
     (if x < width img \<and> y < height img
      then (let off = 4 * (y * width img + x); d = data img
            in (byteAt d off, byteAt d (off + 1), byteAt d (off + 2), byteAt d (off + 3)))
      else (0, 0, 0, 0))"

definition bytesOf :: "pixel \<Rightarrow> byte list" where
  "bytesOf p = (case p of (r, g, b, a) \<Rightarrow> [r, g, b, a])"

definition mkImage :: "nat \<Rightarrow> nat \<Rightarrow> (nat \<Rightarrow> nat \<Rightarrow> pixel) \<Rightarrow> ImageData" where
  "mkImage w h px =
     \<lparr>width = w, height = h,
      data = concat (map (\<lambda>y. concat (map (\<lambda>x. bytesOf (px x y)) [0..<w])) [0..<h])\<rparr>"

definition getImageData :: "ImageData \<Rightarrow> nat \<Rightarrow> nat \<Rightarrow> ImageData" where
  "getImageData canvas w h = mkImage w h (pixelAt canvas)"

definition putImageData :: "ImageData \<Rightarrow> ImageData \<Rightarrow> ImageData" where
  "putImageData img canvas =
     mkImage (width canvas) (height canvas)
       (\<lambda>x y. if x < width img \<and> y < height img then pixelAt img x y else pixelAt canvas x y)"

text \<open>
  What the browser does when it resamples an image to another size, and when it draws
  through a CSS filter other than \<^verbatim>\<open>none\<close>, is not in the repository: both are
  parameters. \<open>scaleImage br smoothing img w h\<close> is \<open>img\<close> resampled to \<open>w \<times> h\<close> with
  \<^verbatim>\<open>imageSmoothingEnabled = smoothing\<close>; \<open>cssDraw br f img canvas\<close> is the canvas after
  \<open>img\<close> has been drawn at the origin through the filter \<open>f\<close>.
\<close>

record browser =
  scaleImage :: "bool \<Rightarrow> ImageData \<Rightarrow> nat \<Rightarrow> nat \<Rightarrow> ImageData"
  cssDraw :: "string \<Rightarrow> ImageData \<Rightarrow> ImageData \<Rightarrow> ImageData"

definition drawImage :: "browser \<Rightarrow> bool \<Rightarrow> ImageData \<Rightarrow> nat \<Rightarrow> nat \<Rightarrow> ImageData" where
  "drawImage br smoothing source w h =
     (if width source = w \<and> height source = h then source
      else scaleImage br smoothing source w h)"

datatype error = TypeError | InvalidStateError | IndexSizeError

text \<open>The constructor \<^verbatim>\<open>new ImageData(data, sw, sh)\<close> throws on a buffer that does not fit.\<close>

definition newImageData :: "byte list \<Rightarrow> nat \<Rightarrow> nat \<Rightarrow> error + ImageData" where
  "newImageData d w h =
     (if length d = 0 \<or> length d mod 4 \<noteq> 0 then Inl InvalidStateError
      else if w = 0 \<or> (length d div 4) mod w \<noteq> 0 \<or> (length d div 4) div w \<noteq> h
      then Inl IndexSizeError
      else Inr \<lparr>width = w, height = h, data = d\<rparr>)"

section \<open>Sobel edge detector (filters.js, sobelEdge)\<close>

text \<open>
  \<open>grayOf\<close> is the first loop; a cell is \<open>None\<close> (\<^verbatim>\<open>NaN\<close>) where the source array is too
  short. \<open>sobelMag\<close> is \<^verbatim>\<open>mag\<close> at the flat index \<open>i\<close>: the eight neighbours that enter
  \<^verbatim>\<open>gx\<close> and \<^verbatim>\<open>gy\<close> are read, and one \<^verbatim>\<open>NaN\<close> among them makes the result \<^verbatim>\<open>NaN\<close>.
  \<open>toUint8Clamped\<close> is a store into a \<^verbatim>\<open>Uint8ClampedArray\<close>: \<^verbatim>\<open>NaN\<close> becomes 0, other
  values are rounded to the nearest integer, ties to even, and clamped to 0..255.
  \<open>sobelPixel\<close> is the body of the inner loop, and the two nested loops run over
  \<open>List.product [1..<h - 1] [1..<w - 1]\<close>, rows outermost.
\<close>

definition grayAt :: "byte list \<Rightarrow> nat \<Rightarrow> real option" where
  "grayAt src i = do {
     r \<leftarrow> rd src (int (4 * i));
     g \<leftarrow> rd src (int (4 * i + 1));
     b \<leftarrow> rd src (int (4 * i + 2));
     Some (0.2126 * real (unat r) + 0.7152 * real (unat g) + 0.0722 * real (unat b))
   }"

definition grayOf :: "byte list \<Rightarrow> nat \<Rightarrow> real option list" where
  "grayOf src n = map (grayAt src) [0..<n]"

definition rdNum :: "real option list \<Rightarrow> int \<Rightarrow> real option" where
  "rdNum xs i = (case rd xs i of None \<Rightarrow> None | Some v \<Rightarrow> v)"

definition sobelMag :: "real option list \<Rightarrow> int \<Rightarrow> int \<Rightarrow> real option" where
  "sobelMag gray w i = do {
     tl \<leftarrow> rdNum gray (i - w - 1);
     tc \<leftarrow> rdNum gray (i - w);
     tr \<leftarrow> rdNum gray (i - w + 1);
     ml \<leftarrow> rdNum gray (i - 1);
     mr \<leftarrow> rdNum gray (i + 1);
     bl \<leftarrow> rdNum gray (i + w - 1);
     bc \<leftarrow> rdNum gray (i + w);
     br \<leftarrow> rdNum gray (i + w + 1);
     let gx = - tl + tr + - 2 * ml + 2 * mr + - bl + br;
         gy = - tl - 2 * tc - tr + bl + 2 * bc + br
     in Some (sqrt (gx * gx + gy * gy) * 0.25)
   }"

definition roundHalfEven :: "real \<Rightarrow> int" where
  "roundHalfEven x =
     (let f = \<lfloor>x\<rfloor>; d = x - real_of_int f
      in if d < 1/2 then f else if d > 1/2 then f + 1 else if even f then f else f + 1)"

definition toUint8Clamped :: "real option \<Rightarrow> byte" where
  "toUint8Clamped v =
     (case v of None \<Rightarrow> 0 | Some x \<Rightarrow> word_of_int (max 0 (min 255 (roundHalfEven x))))"

definition sobelPixel :: "real option list \<Rightarrow> nat \<Rightarrow> byte list \<Rightarrow> nat \<times> nat \<Rightarrow> byte list" where
  "sobelPixel gray w out yx =
     (case yx of (y, x) \<Rightarrow>
        (let i = y * w + x;
             mag = sobelMag gray (int w) (int i);
             v = toUint8Clamped (map_option (\<lambda>m. if m > 255 then 255 else m) mag);
             off = i * 4
         in out[off := v, off + 1 := v, off + 2 := v, off + 3 := 255]))"

definition sobelEdge :: "ImageData \<Rightarrow> nat \<Rightarrow> nat \<Rightarrow> error + ImageData" where
  "sobelEdge img w h =
     (let src = data img;
          gray = grayOf src (w * h);
          out0 = replicate (length src) 0;
          out = foldl (sobelPixel gray w) out0 (List.product [1..<h - 1] [1..<w - 1])
      in newImageData out w h)"

section \<open>Filter pipeline (filters.js, FilterPipeline)\<close>

text \<open>
  The object's fields \<^verbatim>\<open>w\<close> and \<^verbatim>\<open>h\<close> are \<open>this_w\<close> and \<open>this_h\<close>; the pixelation canvas
  is its bitmap. The field \<open>trace\<close> is not a field of the object: it records, in order,
  each call of a descriptor's \<^verbatim>\<open>makeLUT\<close> (with the descriptor's key) and each call of
  \<open>sobelEdge\<close> (with the frame counter of that call), so that statements about how often
  they run can be made. \<^verbatim>\<open>performance.now()\<close> is the argument
  \<open>now\<close>. A result \<open>Inl e\<close> means that the call threw \<open>e\<close>.
\<close>

record edgeCache =
  imageData :: "ImageData option"
  lastUpdateTs :: real
  frameCounter :: nat
  skip :: nat

datatype event = BuildLUT string | ComputeSobel nat

record pipeline =
  pixelCanvas :: ImageData
  edgeCache :: edgeCache
  lutCache :: "string \<rightharpoonup> lut3d"
  this_w :: nat
  this_h :: nat
  trace :: "event list"

definition newFilterPipeline :: pipeline where
  "newFilterPipeline =
     \<lparr>pixelCanvas = mkImage 300 150 (\<lambda>x y. (0, 0, 0, 0)),
      edgeCache = \<lparr>imageData = None, lastUpdateTs = 0, frameCounter = 0, skip = 1\<rparr>,
      lutCache = Map.empty,
      this_w = 0, this_h = 0,
      trace = []\<rparr>"

definition jsRound :: "real \<Rightarrow> int" where
  "jsRound x = \<lfloor>x + 1/2\<rfloor>"

definition resize :: "pipeline \<Rightarrow> nat \<Rightarrow> nat \<Rightarrow> pipeline" where
  "resize st w h =
     (if this_w st = w \<and> this_h st = h then st
      else (let targetSmallW = max 32 (nat (jsRound (real w / 24)));
                targetSmallH = max 32 (nat (jsRound (real h / 24)))
            in st\<lparr>this_w := w, this_h := h,
                  pixelCanvas := mkImage targetSmallW targetSmallH (\<lambda>x y. (0, 0, 0, 0))\<rparr>))"

definition drawMirrored ::
  "browser \<Rightarrow> ImageData \<Rightarrow> ImageData \<Rightarrow> nat \<Rightarrow> nat \<Rightarrow> string \<Rightarrow> ImageData" where
  "drawMirrored br ctx source w h filterStr =
     (let f = (if filterStr = [] then ''none'' else filterStr);
          drawn = drawImage br True source w h;
          mirrored = mkImage w h (\<lambda>x y. pixelAt drawn (w - 1 - x) y)
      in if f = ''none'' then putImageData mirrored ctx else cssDraw br f mirrored ctx)"

definition getOrCreateLUT :: "pipeline \<Rightarrow> filterMeta \<Rightarrow> error + (lut3d \<times> pipeline)" where
  "getOrCreateLUT st meta =
     (case lutCache st (key meta) of
        Some cached \<Rightarrow> Inr (cached, st)
      | None \<Rightarrow>
          (case makeLUT meta of
             None \<Rightarrow> Inl TypeError
           | Some mk \<Rightarrow>
               (let built = mk ()
                in Inr (built, st\<lparr>lutCache := (lutCache st)(key meta \<mapsto> built),
                                   trace := trace st @ [BuildLUT (key meta)]\<rparr>))))"

definition renderPixelate ::
  "browser \<Rightarrow> pipeline \<Rightarrow> ImageData \<Rightarrow> ImageData \<Rightarrow> pipeline \<times> ImageData" where
  "renderPixelate br st offCtx video =
     (let w = this_w st; h = this_h st
      in if w = 0 \<or> h = 0 then (st, offCtx)
         else (let pw = width (pixelCanvas st);
                   ph = height (pixelCanvas st);
                   drawn = drawImage br False video pw ph;
                   small = mkImage pw ph (\<lambda>x y. pixelAt drawn (pw - 1 - x) y);
                   big = drawImage br False small w h
               in (st\<lparr>pixelCanvas := small\<rparr>, putImageData (mkImage w h (pixelAt big)) offCtx)))"

definition renderEdge ::
  "browser \<Rightarrow> pipeline \<Rightarrow> ImageData \<Rightarrow> ImageData \<Rightarrow> real \<Rightarrow> error + (pipeline \<times> ImageData)" where
  "renderEdge br st offCtx video now =
     (let w = this_w st; h = this_h st
      in if w = 0 \<or> h = 0 then Inr (st, offCtx)
         else (let c1 = drawMirrored br offCtx video w h ''none'';
                   ec = (edgeCache st)\<lparr>frameCounter := frameCounter (edgeCache st) + 1\<rparr>;
                   shouldCompute = (frameCounter ec mod (skip ec + 1) = 0 \<or> imageData ec = None)
               in if shouldCompute then
                    (case sobelEdge (getImageData c1 w h) w h of
                       Inl e \<Rightarrow> Inl e
                     | Inr edged \<Rightarrow>
                         Inr (st\<lparr>edgeCache := ec\<lparr>imageData := Some edged, lastUpdateTs := now\<rparr>,
                                 trace := trace st @ [ComputeSobel (frameCounter ec)]\<rparr>,
                              putImageData edged c1))
                  else (case imageData ec of
                          Some cached \<Rightarrow> Inr (st\<lparr>edgeCache := ec\<rparr>, putImageData cached c1)
                        | None \<Rightarrow> Inr (st\<lparr>edgeCache := ec\<rparr>, c1))))"

text \<open>
  The pixel loop of \<open>renderLUT\<close> steps through the bytes four at a time. The length of
  an \<^verbatim>\<open>ImageData\<close> array is a multiple of four; the equations for a shorter rest say what
  the loop would do there (a missing green or blue byte is \<^verbatim>\<open>undefined\<close>, the sample is
  \<^verbatim>\<open>NaN\<close>, and \<^verbatim>\<open>NaN\<close> is stored as 0).
\<close>

definition gradeChannel :: "real \<Rightarrow> real option \<Rightarrow> real \<Rightarrow> byte" where
  "gradeChannel c lc s =
     toUint8Clamped (map_option (\<lambda>v. real_of_int (jsRound (clamp01 (mix c v s) * 255))) lc)"

fun gradePixels :: "lut3d \<Rightarrow> real \<Rightarrow> byte list \<Rightarrow> byte list" where
  "gradePixels lut s (r8 # g8 # b8 # rest) =
     (let r = real (unat r8) / 255; g = real (unat g8) / 255; b = real (unat b8) / 255
      in case sampleLUT3D lut r g b of
           (lr, lg, lb) \<Rightarrow>
             gradeChannel r lr s # gradeChannel g lg s # gradeChannel b lb s #
             (case rest of [] \<Rightarrow> [] | a8 # rest' \<Rightarrow> a8 # gradePixels lut s rest'))"
| "gradePixels lut s [r8, g8] = [0, 0]"
| "gradePixels lut s [r8] = [0]"
| "gradePixels lut s [] = []"

definition renderLUT ::
  "browser \<Rightarrow> pipeline \<Rightarrow> ImageData \<Rightarrow> ImageData \<Rightarrow> filterMeta
   \<Rightarrow> error + (pipeline \<times> ImageData)" where
  "renderLUT br st offCtx video meta =
     (let w = this_w st; h = this_h st
      in if w = 0 \<or> h = 0 then Inr (st, offCtx)
         else (let c1 = drawMirrored br offCtx video w h ''none'';
                   frame = getImageData c1 w h
               in case getOrCreateLUT st meta of
                    Inl e \<Rightarrow> Inl e
                  | Inr (lut, st1) \<Rightarrow>
                      (let s = (case strength meta of Some v \<Rightarrow> v | None \<Rightarrow> 1.0);
                           graded = frame\<lparr>data := gradePixels lut s (data frame)\<rparr>
                       in Inr (st1, putImageData graded c1))))"

text \<open>
  \<open>pipeline_apply\<close> is the method \<^verbatim>\<open>apply\<close>. \<^verbatim>\<open>FilterList.find\<close> is \<open>find\<close>, and
  \<^verbatim>\<open>meta.value || 'none'\<close> replaces a missing or empty value.
\<close>

definition pipeline_apply ::
  "browser \<Rightarrow> pipeline \<Rightarrow> ImageData \<Rightarrow> ImageData \<Rightarrow> string \<Rightarrow> real
   \<Rightarrow> error + (pipeline \<times> ImageData)" where
  "pipeline_apply br st offCtx video filterKey now =
     (let w = this_w st; h = this_h st;
          special =
            (if filterKey = ''pixelate'' then Inr (renderPixelate br st offCtx video)
             else if filterKey = ''edge'' then renderEdge br st offCtx video now
             else Inr (st, drawMirrored br offCtx video w h ''none''))
      in if w = 0 \<or> h = 0 then Inr (st, offCtx)
         else (case find (\<lambda>f. key f = filterKey) FilterList of
                 None \<Rightarrow> special
               | Some meta \<Rightarrow>
                   if kind meta = ''css'' \<or> kind meta = ''simple'' then
                     Inr (st, drawMirrored br offCtx video w h
                            (case cssValue meta of
                               None \<Rightarrow> ''none''
                             | Some v \<Rightarrow> if v = [] then ''none'' else v))
                   else if kind meta = ''lut'' then renderLUT br st offCtx video meta
                   else if kind meta = ''pixelate'' then Inr (renderPixelate br st offCtx video)
                   else if kind meta = ''edge'' then renderEdge br st offCtx video now
                   else special))"

text \<open>
  A run of the pipeline: calls of \<^verbatim>\<open>resize\<close> and of \<^verbatim>\<open>apply\<close>, each \<^verbatim>\<open>apply\<close> with the
  canvas bitmap it finds, the video frame, the filter key and the clock. \<open>runCalls\<close>
  returns the pipeline after the run and the canvas each \<^verbatim>\<open>apply\<close> left.
\<close>

datatype pcall = Apply ImageData ImageData string real | Resize nat nat

fun runCalls :: "browser \<Rightarrow> pipeline \<Rightarrow> pcall list \<Rightarrow> error + (pipeline \<times> ImageData list)" where
  "runCalls br st [] = Inr (st, [])"
| "runCalls br st (Resize w h # cs) = runCalls br (resize st w h) cs"
| "runCalls br st (Apply offCtx video filterKey now # cs) =
     (case pipeline_apply br st offCtx video filterKey now of
        Inl e \<Rightarrow> Inl e
      | Inr (st1, out) \<Rightarrow>
          (case runCalls br st1 cs of
             Inl e \<Rightarrow> Inl e
           | Inr (st2, outs) \<Rightarrow> Inr (st2, out # outs)))"

text \<open>A call of \<^verbatim>\<open>apply\<close> with the edge-detect key, from its canvas, frame and clock.\<close>

definition edgeCall :: "ImageData \<times> ImageData \<times> real \<Rightarrow> pcall" where
  "edgeCall c = (case c of (offCtx, video, now) \<Rightarrow> Apply offCtx video ''edge'' now)"

text \<open>
  \<open>buildKeys\<close> reads off a trace the keys whose table was built, in order. \<open>lutInv\<close> is
  the invariant of the cache: no key was built twice, the keys built are the keys
  cached, and the table cached for a key is the one that the \<^verbatim>\<open>makeLUT\<close> of the key's
  descriptor returns.
\<close>

fun buildKeys :: "event list \<Rightarrow> string list" where
  "buildKeys [] = []"
| "buildKeys (BuildLUT k # es) = k # buildKeys es"
| "buildKeys (ComputeSobel n # es) = buildKeys es"

definition lutInv :: "pipeline \<Rightarrow> bool" where
  "lutInv st =
     (distinct (buildKeys (trace st)) \<and> set (buildKeys (trace st)) = dom (lutCache st)
      \<and> (\<forall>k l. lutCache st k = Some l \<longrightarrow>
            (\<exists>meta mk. find (\<lambda>f. key f = k) FilterList = Some meta
               \<and> makeLUT meta = Some mk \<and> l = mk ())))"

section \<open>Properties of the clap detector\<close>

lemma update_fires:
  "fst (update s d b t) \<Longrightarrow> b \<and> \<not> inClapZone s \<and> inClapZone (snd (update s d b t))"
  by (auto simp: update_def Let_def split: if_splits option.splits)

lemma update_keeps_zone:
  "inClapZone s \<Longrightarrow> \<not> clears s (d, b, t) \<Longrightarrow> inClapZone (snd (update s d b t))"
  by (auto simp: update_def clears_def Let_def split: if_splits)

lemma updateCall_fires:
  "fst (updateCall s c) \<Longrightarrow> \<not> inClapZone s \<and> inClapZone (snd (updateCall s c))"
  using update_fires by (auto simp: updateCall_def split: prod.splits)

lemma updateCall_keeps_zone:
  "inClapZone s \<Longrightarrow> \<not> clears s c \<Longrightarrow> inClapZone (snd (updateCall s c))"
  using update_keeps_zone by (cases c) (auto simp: updateCall_def)

lemma updates_nth:
  "k < length cs \<Longrightarrow> updates s cs ! k = fst (updateCall (stateAfter s (take k cs)) (cs ! k))"
proof (induction cs arbitrary: s k)
  case Nil
  then show ?case by simp
next
  case (Cons c cs)
  then show ?case by (cases k) auto
qed

lemma stateAfter_snoc:
  "stateAfter s (cs @ [c]) = snd (updateCall (stateAfter s cs) c)"
  by (induction cs arbitrary: s) auto

lemma stateAfter_take_Suc:
  "k < length cs \<Longrightarrow>
   stateAfter s (take (Suc k) cs) = snd (updateCall (stateAfter s (take k cs)) (cs ! k))"
  by (simp add: take_Suc_conv_app_nth stateAfter_snoc)

text \<open>
  After a call that fired, the detector stays in the clap zone for as long as no call
  clears it.
\<close>

lemma zone_persists:
  assumes fire: "updates s cs ! i" and ij: "i < k" "k \<le> j" "j < length cs"
    and quiet: "\<forall>m. i < m \<and> m < j \<longrightarrow> \<not> clears (stateAfter s (take m cs)) (cs ! m)"
  shows "inClapZone (stateAfter s (take k cs))"
  using ij
proof (induction k)
  case 0
  then show ?case by simp
next
  case (Suc k)
  have kl: "k < length cs" using Suc.prems by simp
  show ?case
  proof (cases "k = i")
    case True
    have "fst (updateCall (stateAfter s (take i cs)) (cs ! i))"
      using fire kl True by (simp add: updates_nth)
    then show ?thesis
      using updateCall_fires kl True by (simp add: stateAfter_take_Suc)
  next
    case False
    then have ik: "i < k" using Suc.prems by simp
    then have z: "inClapZone (stateAfter s (take k cs))"
      using Suc by simp
    have "\<not> clears (stateAfter s (take k cs)) (cs ! k)"
      using quiet ik Suc.prems by simp
    then show ?thesis
      using z updateCall_keeps_zone kl by (simp add: stateAfter_take_Suc)
  qed
qed

text \<open>
  C2. With the constants of app.js, the calls \<open>update(0.05, true, t)\<close> at
  \<open>t = 0, 50, 100, 150\<close> on a fresh detector return false, false, true, false, and the
  cooldown deadline after the third call is 750.
\<close>

theorem clap_sequence:
  "updates createClapDetector
     [(0.05, True, 0), (0.05, True, 50), (0.05, True, 100), (0.05, True, 150)]
   = [False, False, True, False]
   \<and> cooldownUntil (stateAfter createClapDetector
        [(0.05, True, 0), (0.05, True, 50), (0.05, True, 100)]) = 750"
  by (simp add: updateCall_def update_def createClapDetector_def thresholdRel_def
      minDurationMs_def cooldownMs_def hysteresisUp_def Let_def)

text \<open>
  C10. In every sequence of calls on a fresh detector, between two calls that return
  true there is a call with \<open>bothHands\<close> false, or a call at or after the cooldown
  deadline of the state it finds whose distance is strictly above \<open>hysteresisUp\<close>.
\<close>

theorem triggers_separated:
  assumes "i < j" "j < length cs"
    and "updates createClapDetector cs ! i" "updates createClapDetector cs ! j"
  shows "\<exists>k. i < k \<and> k < j \<and> clears (stateAfter createClapDetector (take k cs)) (cs ! k)"
proof (rule ccontr)
  assume "\<not> ?thesis"
  then have quiet: "\<forall>m. i < m \<and> m < j \<longrightarrow>
      \<not> clears (stateAfter createClapDetector (take m cs)) (cs ! m)"
    by blast
  have "inClapZone (stateAfter createClapDetector (take j cs))"
    using zone_persists [OF assms(3) assms(1) _ assms(2) quiet] by simp
  moreover have "fst (updateCall (stateAfter createClapDetector (take j cs)) (cs ! j))"
    using assms(2,4) by (simp add: updates_nth)
  ultimately show False using updateCall_fires by blast
qed

text \<open>
  A run with two triggers: hands close from 0 to 100 ms (first trigger), apart at 800 ms
  after the cooldown, close again from 900 to 1000 ms (second trigger).
\<close>

theorem triggers_separated_witness:
  "(1::nat) < 4
   \<and> 4 < length [(0.05, True, 0), (0.05, True, 100), (0.5, True, 800), (0.05, True, 900),
                 (0.05, True, 1000) :: clapCall]
   \<and> updates createClapDetector
       [(0.05, True, 0), (0.05, True, 100), (0.5, True, 800), (0.05, True, 900),
        (0.05, True, 1000)] ! 1
   \<and> updates createClapDetector
       [(0.05, True, 0), (0.05, True, 100), (0.5, True, 800), (0.05, True, 900),
        (0.05, True, 1000)] ! 4
   \<and> (\<exists>k. 1 < k \<and> k < 4 \<and>
         clears (stateAfter createClapDetector
                   (take k [(0.05, True, 0), (0.05, True, 100), (0.5, True, 800),
                            (0.05, True, 900), (0.05, True, 1000)]))
                ([(0.05, True, 0), (0.05, True, 100), (0.5, True, 800), (0.05, True, 900),
                  (0.05, True, 1000)] ! k))"
proof -
  define cs :: "clapCall list" where
    "cs = [(0.05, True, 0), (0.05, True, 100), (0.5, True, 800), (0.05, True, 900),
           (0.05, True, 1000)]"
  have u: "updates createClapDetector cs = [False, True, False, False, True]"
    by (simp add: cs_def updateCall_def update_def createClapDetector_def thresholdRel_def
        minDurationMs_def cooldownMs_def hysteresisUp_def Let_def)
  have l: "4 < length cs" by (simp add: cs_def)
  have a: "updates createClapDetector cs ! 1" by (simp add: u)
  have b: "updates createClapDetector cs ! 4" by (simp add: u)
  have "\<exists>k. 1 < k \<and> k < 4 \<and> clears (stateAfter createClapDetector (take k cs)) (cs ! k)"
    using triggers_separated [of 1 4 cs, OF _ l a b] by simp
  then show ?thesis using l a b unfolding cs_def by simp
qed

section \<open>Properties of the point smoother\<close>

text \<open>
  C9, as the claim has it, fails: a smoother created without a coefficient and pushed
  \<open>(0, 0)\<close> then \<open>(1, 1)\<close> does not return the point that \<open>\<alpha> = 0.4\<close> gives.
\<close>

theorem smoother_default_alpha_counterexample:
  "fst (push (snd (push (makePointSmoother None) 0 0)) 1 1)
   \<noteq> (0 * (1 - 0.4) + 1 * 0.4, 0 * (1 - 0.4) + 1 * 0.4)"
  by (simp add: push_def makePointSmoother_def Let_def)

text \<open>
  C9, amended. A smoother created without a coefficient has \<open>\<alpha> = 0.5\<close>, one created
  with a coefficient has that one, and the two smoothers of app.js are created with 0.4.
  \<open>push\<close> on an absent state stores and returns \<open>(x, y)\<close>; on a state \<open>(sx, sy)\<close> it
  stores and returns \<open>(sx, sy)\<cdot>(1 - \<alpha>) + (x, y)\<cdot>\<alpha>\<close>. \<open>reset\<close> makes the state absent and
  keeps \<open>\<alpha>\<close>, so the next \<open>push\<close> initialises again.
\<close>

theorem smoother_push_reset:
  "alpha (makePointSmoother None) = 0.5
   \<and> alpha (makePointSmoother (Some a)) = a
   \<and> alpha leftSmoother = 0.4 \<and> alpha rightSmoother = 0.4
   \<and> pt (makePointSmoother ao) = None
   \<and> push (sm\<lparr>pt := None\<rparr>) x y = ((x, y), sm\<lparr>pt := Some (x, y)\<rparr>)
   \<and> push (sm\<lparr>pt := Some (sx, sy)\<rparr>) x y =
       ((sx * (1 - alpha sm) + x * alpha sm, sy * (1 - alpha sm) + y * alpha sm),
        sm\<lparr>pt := Some (sx * (1 - alpha sm) + x * alpha sm, sy * (1 - alpha sm) + y * alpha sm)\<rparr>)
   \<and> pt (reset sm) = None \<and> alpha (reset sm) = alpha sm
   \<and> push (reset sm) x y = ((x, y), sm\<lparr>pt := Some (x, y)\<rparr>)"
  by (simp add: push_def makePointSmoother_def leftSmoother_def rightSmoother_def reset_def
      Let_def)

section \<open>Properties of the colour conversions\<close>

text \<open>
  C7. The round trip fails on the code at \<open>(1/2, 1/4, 1/4)\<close>: \<open>rgbToHsl\<close> gives
  saturation 1 (its divisor for \<open>l \<le> 1/2\<close> is \<open>max - min\<close>), and \<open>hslToRgb\<close> then
  returns \<open>(3/4, 0, 0)\<close>.
\<close>

theorem hsl_roundtrip_fails:
  "rgbToHsl (1/2) (1/4) (1/4) = (0, 1, 3/8) \<and> hslToRgb 0 1 (3/8) = (3/4, 0, 0)"
  by (simp add: rgbToHsl_def hslToRgb_def hue2rgb_def Let_def)

section \<open>Properties of the LUT engine\<close>

lemma concat_blocks_length:
  "(\<And>i. i < n \<Longrightarrow> length (f i) = m) \<Longrightarrow> length (concat (map f [0..<n])) = n * m"
  by (induction n) auto

lemma concat_blocks_nth:
  "(\<And>i. i < n \<Longrightarrow> length (f i) = m) \<Longrightarrow> i < n \<Longrightarrow> r < m \<Longrightarrow>
   concat (map f [0..<n]) ! (i * m + r) = f i ! r"
proof (induction n)
  case 0
  then show ?case by simp
next
  case (Suc n)
  have len: "length (concat (map f [0..<n])) = n * m"
    using Suc.prems(1) by (simp add: concat_blocks_length)
  show ?case
  proof (cases "i < n")
    case True
    have "i * m + r < i * m + m" using Suc.prems(3) by simp
    also have "\<dots> = Suc i * m" by simp
    also have "\<dots> \<le> n * m" using True by (intro mult_le_mono1) simp
    finally have "i * m + r < n * m" .
    then show ?thesis
      using Suc True len by (simp add: nth_append)
  next
    case False
    then have "i = n" using Suc.prems(2) by simp
    then show ?thesis using len by (simp add: nth_append)
  qed
qed

lemma lutCell_length: "length (lutCell n f ri gi bi) = 3"
  by (simp add: lutCell_def Let_def split: prod.splits)

lemma lut_data_length: "length (lut_data (generate3DLUT n f)) = n * (n * (n * 3))"
  by (simp add: generate3DLUT_def concat_blocks_length lutCell_length)

lemma lut_data_nth:
  assumes "ri < n" "gi < n" "bi < n" "c < 3"
  shows "lut_data (generate3DLUT n f) ! (((ri * n + gi) * n + bi) * 3 + c)
         = lutCell n f ri gi bi ! c"
proof -
  let ?inner = "\<lambda>ri gi. concat (map (\<lambda>bi. lutCell n f ri gi bi) [0..<n])"
  let ?mid = "\<lambda>ri. concat (map (\<lambda>gi. ?inner ri gi) [0..<n])"
  have li: "\<And>ri gi. length (?inner ri gi) = n * 3"
    by (simp add: concat_blocks_length lutCell_length)
  have lm: "\<And>ri. length (?mid ri) = n * (n * 3)"
    by (rule concat_blocks_length) (simp add: li)
  have i1: "bi * 3 + c < n * 3" using assms(3,4) by simp
  have i2: "gi * (n * 3) + (bi * 3 + c) < n * (n * 3)"
  proof -
    have "gi * (n * 3) + (bi * 3 + c) < gi * (n * 3) + n * 3" using i1 by simp
    also have "\<dots> = (Suc gi) * (n * 3)" by simp
    also have "\<dots> \<le> n * (n * 3)" using assms(2) by (intro mult_le_mono1) simp
    finally show ?thesis .
  qed
  have e: "((ri * n + gi) * n + bi) * 3 + c = ri * (n * (n * 3)) + (gi * (n * 3) + (bi * 3 + c))"
    by (simp add: algebra_simps)
  have "concat (map ?mid [0..<n]) ! (ri * (n * (n * 3)) + (gi * (n * 3) + (bi * 3 + c)))
        = ?mid ri ! (gi * (n * 3) + (bi * 3 + c))"
    by (rule concat_blocks_nth) (simp_all add: lm assms(1) i2)
  also have "\<dots> = ?inner ri gi ! (bi * 3 + c)"
    by (rule concat_blocks_nth) (simp_all add: li assms(2) i1)
  also have "\<dots> = lutCell n f ri gi bi ! c"
    by (rule concat_blocks_nth) (simp_all add: lutCell_length assms(3,4))
  finally have "concat (map ?mid [0..<n]) ! (((ri * n + gi) * n + bi) * 3 + c)
      = lutCell n f ri gi bi ! c"
    unfolding e .
  moreover have "lut_data (generate3DLUT n f) = concat (map ?mid [0..<n])"
    by (simp add: generate3DLUT_def)
  ultimately show ?thesis by (simp only:)
qed

lemma block_index_less: "(x::nat) < m \<Longrightarrow> y < p \<Longrightarrow> x * p + y < m * p"
proof -
  assume a: "x < m" "y < p"
  have "x * p + y < x * p + p" using a(2) by simp
  also have "\<dots> = Suc x * p" by simp
  also have "\<dots> \<le> m * p" using a(1) by (intro mult_le_mono1) simp
  finally show ?thesis .
qed

lemma lut_index_less:
  assumes "a < n" "b < n" "k < n" "c < 3"
  shows "((a * n + b) * n + k) * 3 + c < n * n * n * (3::nat)"
proof -
  have "a * n + b < n * n" using assms(1,2) by (rule block_index_less)
  then have "(a * n + b) * n + k < n * n * n" using assms(3) by (rule block_index_less)
  then show ?thesis using assms(4) by (rule block_index_less)
qed

lemma rd_lut_Some:
  assumes len: "length d = n * n * n * 3"
    and r: "0 \<le> ri" "ri < int n" and g: "0 \<le> gi" "gi < int n" and b: "0 \<le> bi" "bi < int n"
    and c: "c < 3"
  shows "rd d (lutIdx (int n) ri gi bi + int c)
         = Some (d ! (((nat ri * n + nat gi) * n + nat bi) * 3 + c))"
proof -
  obtain a b' k where abk: "ri = int a" "gi = int b'" "bi = int k"
    using r(1) g(1) b(1) by (metis nonneg_int_cases)
  have lt: "a < n" "b' < n" "k < n" using r(2) g(2) b(2) abk by simp_all
  have e: "lutIdx (int n) (int a) (int b') (int k) + int c
      = int (((a * n + b') * n + k) * 3 + c)"
    by (simp add: lutIdx_def)
  have "((a * n + b') * n + k) * 3 + c < length d"
    using lut_index_less [OF lt c] len by simp
  then have "rd d (int (((a * n + b') * n + k) * 3 + c))
      = Some (d ! (((a * n + b') * n + k) * 3 + c))"
    unfolding rd_def by (simp only: of_nat_0_le_iff of_nat_less_iff nat_int if_True simp_thms)
  then show ?thesis unfolding abk e nat_int .
qed

lemma mix_convex:
  assumes "0 \<le> x" "x \<le> 1" "0 \<le> y" "y \<le> 1" "0 \<le> t" "t \<le> 1"
  shows "0 \<le> mix x y t \<and> mix x y t \<le> 1"
proof -
  have "0 \<le> (1 - t) * x" "0 \<le> (1 - t) * (1 - x)" "0 \<le> t * y" "0 \<le> t * (1 - y)"
    using assms by simp_all
  then have "t * x \<le> x" "x + t \<le> 1 + t * x" "0 \<le> t * y" "t * y \<le> t"
    by (simp_all add: algebra_simps)
  moreover have "mix x y t = x - t * x + t * y" by (simp add: mix_def algebra_simps)
  ultimately show ?thesis by linarith
qed

lemma mixU_unit: "inUnit a \<Longrightarrow> inUnit b \<Longrightarrow> 0 \<le> t \<Longrightarrow> t \<le> 1 \<Longrightarrow> inUnit (mixU a b t)"
  using mix_convex by (auto simp: inUnit_def mixU_def split: option.splits)

lemma mixU_zero: "mixU a (Some y) 0 = a"
  by (cases a) (simp_all add: mixU_def mix_def)

lemma axisCell_unit:
  assumes "1 \<le> n" "0 \<le> v" "v \<le> 1"
  shows "case axisCell n v of (v0, v1, t) \<Rightarrow>
           0 \<le> v0 \<and> v0 \<le> n - 1 \<and> 0 \<le> v1 \<and> v1 \<le> n - 1 \<and> 0 \<le> t \<and> t \<le> 1"
proof -
  let ?vf = "v * real_of_int (n - 1)"
  have n0: "0 \<le> real_of_int (n - 1)" using assms(1) by simp
  have lo: "0 \<le> ?vf" using assms(2) n0 by simp
  have hi: "?vf \<le> real_of_int (n - 1)"
    using mult_right_mono [OF assms(3) n0] by simp
  have f0: "0 \<le> \<lfloor>?vf\<rfloor>" using lo by simp
  have f1: "\<lfloor>?vf\<rfloor> \<le> n - 1" using floor_mono [OF hi] by simp
  have t0: "0 \<le> ?vf - real_of_int \<lfloor>?vf\<rfloor>" by linarith
  have t1: "?vf - real_of_int \<lfloor>?vf\<rfloor> \<le> 1" by linarith
  show ?thesis
    using f0 f1 t0 t1 assms(1) by (simp add: axisCell_def Let_def)
qed

lemma sampleLUT3D_cells:
  assumes "axisCell (int (lut_size lut)) r = (r0, r1, tr)"
    and "axisCell (int (lut_size lut)) g = (g0, g1, tg)"
    and "axisCell (int (lut_size lut)) b = (b0, b1, tb)"
  shows "sampleLUT3D lut r g b =
    mix3 (mix3 (lerp3 (lut_data lut) (lutIdx (int (lut_size lut)) r0 g0 b0)
                      (lutIdx (int (lut_size lut)) r1 g0 b0) tr)
               (lerp3 (lut_data lut) (lutIdx (int (lut_size lut)) r0 g1 b0)
                      (lutIdx (int (lut_size lut)) r1 g1 b0) tr) tg)
         (mix3 (lerp3 (lut_data lut) (lutIdx (int (lut_size lut)) r0 g0 b1)
                      (lutIdx (int (lut_size lut)) r1 g0 b1) tr)
               (lerp3 (lut_data lut) (lutIdx (int (lut_size lut)) r0 g1 b1)
                      (lutIdx (int (lut_size lut)) r1 g1 b1) tr) tg) tb"
  using assms by (simp add: sampleLUT3D_def Let_def)

lemma rd_lut_unit:
  assumes len: "length d = n * n * n * 3"
    and unit: "\<forall>x \<in> set d. 0 \<le> x \<and> x \<le> 1"
    and r: "0 \<le> ri" "ri < int n" and g: "0 \<le> gi" "gi < int n" and b: "0 \<le> bi" "bi < int n"
    and c: "c < 3"
  shows "inUnit (rd d (lutIdx (int n) ri gi bi + int c))"
proof -
  have lt: "nat ri < n" "nat gi < n" "nat bi < n" using r g b by simp_all
  have "((nat ri * n + nat gi) * n + nat bi) * 3 + c < length d"
    using lut_index_less [OF lt c] len by simp
  then have "d ! (((nat ri * n + nat gi) * n + nat bi) * 3 + c) \<in> set d"
    by (rule nth_mem)
  then show ?thesis
    using unit rd_lut_Some [OF len r g b c] by (simp add: inUnit_def)
qed

lemma lerp3_unit:
  assumes len: "length d = n * n * n * 3"
    and unit: "\<forall>x \<in> set d. 0 \<le> x \<and> x \<le> 1"
    and r: "0 \<le> ri" "ri < int n" and g: "0 \<le> gi" "gi < int n" and b: "0 \<le> bi" "bi < int n"
    and r': "0 \<le> ri'" "ri' < int n" and g': "0 \<le> gi'" "gi' < int n"
    and b': "0 \<le> bi'" "bi' < int n"
    and t: "0 \<le> t" "t \<le> 1"
  shows "unit3 (lerp3 d (lutIdx (int n) ri gi bi) (lutIdx (int n) ri' gi' bi') t)"
proof -
  have a: "inUnit (rd d (lutIdx (int n) ri gi bi))"
    "inUnit (rd d (lutIdx (int n) ri gi bi + 1))"
    "inUnit (rd d (lutIdx (int n) ri gi bi + 2))"
    using rd_lut_unit [OF len unit r g b, of 0] rd_lut_unit [OF len unit r g b, of 1]
      rd_lut_unit [OF len unit r g b, of 2] by simp_all
  have b: "inUnit (rd d (lutIdx (int n) ri' gi' bi'))"
    "inUnit (rd d (lutIdx (int n) ri' gi' bi' + 1))"
    "inUnit (rd d (lutIdx (int n) ri' gi' bi' + 2))"
    using rd_lut_unit [OF len unit r' g' b', of 0] rd_lut_unit [OF len unit r' g' b', of 1]
      rd_lut_unit [OF len unit r' g' b', of 2] by simp_all
  show ?thesis
    unfolding unit3_def lerp3_def using a b t by (simp add: mixU_unit)
qed

lemma mix3_unit: "unit3 u \<Longrightarrow> unit3 v \<Longrightarrow> 0 \<le> t \<Longrightarrow> t \<le> 1 \<Longrightarrow> unit3 (mix3 u v t)"
  by (cases u, cases v) (simp add: unit3_def mix3_def mixU_unit)

lemma mix3_zero: "mix3 u (Some x, Some y, Some z) 0 = u"
  by (cases u) (simp add: mix3_def mixU_zero)

lemma lerp3_grid:
  assumes len: "length d = n * n * n * 3"
    and r: "0 \<le> ri" "ri < int n" and g: "0 \<le> gi" "gi < int n" and b: "0 \<le> bi" "bi < int n"
    and r': "0 \<le> ri'" "ri' < int n" and g': "0 \<le> gi'" "gi' < int n"
    and b': "0 \<le> bi'" "bi' < int n"
  shows "lerp3 d (lutIdx (int n) ri gi bi) (lutIdx (int n) ri' gi' bi') 0
         = (Some (d ! (((nat ri * n + nat gi) * n + nat bi) * 3)),
            Some (d ! (((nat ri * n + nat gi) * n + nat bi) * 3 + 1)),
            Some (d ! (((nat ri * n + nat gi) * n + nat bi) * 3 + 2)))"
  using rd_lut_Some [OF len r g b, of 0] rd_lut_Some [OF len r g b, of 1]
    rd_lut_Some [OF len r g b, of 2]
    rd_lut_Some [OF len r' g' b', of 0] rd_lut_Some [OF len r' g' b', of 1]
    rd_lut_Some [OF len r' g' b', of 2]
  by (simp add: lerp3_def mixU_zero)

lemma axisCell_grid:
  assumes "2 \<le> n" "i < n"
  shows "axisCell (int n) (real i / (real n - 1)) = (int i, min (int n - 1) (int i + 1), 0)"
proof -
  have "real i / (real n - 1) * real_of_int (int n - 1) = real i"
    using assms(1) by simp
  then show ?thesis by (simp add: axisCell_def Let_def)
qed

lemma lut_grid_exact_gen:
  assumes n: "2 \<le> n" and i: "i < n" and j: "j < n" and k: "k < n"
  shows "sampleLUT3D (generate3DLUT n f)
           (real i / (real n - 1)) (real j / (real n - 1)) (real k / (real n - 1))
         = (Some (lut_data (generate3DLUT n f) ! (((i * n + j) * n + k) * 3)),
            Some (lut_data (generate3DLUT n f) ! (((i * n + j) * n + k) * 3 + 1)),
            Some (lut_data (generate3DLUT n f) ! (((i * n + j) * n + k) * 3 + 2)))"
proof -
  let ?lut = "generate3DLUT n f"
  let ?d = "lut_data ?lut"
  have sz: "lut_size ?lut = n" by (simp add: generate3DLUT_def)
  have len: "length ?d = n * n * n * 3" by (simp add: lut_data_length)
  define i1 where "i1 = min (int n - 1) (int i + 1)"
  define j1 where "j1 = min (int n - 1) (int j + 1)"
  define k1 where "k1 = min (int n - 1) (int k + 1)"
  have b0: "0 \<le> int i" "int i < int n" "0 \<le> int j" "int j < int n" "0 \<le> int k" "int k < int n"
    using i j k by simp_all
  have b1: "0 \<le> i1" "i1 < int n" "0 \<le> j1" "j1 < int n" "0 \<le> k1" "k1 < int n"
    using n by (simp_all add: i1_def j1_def k1_def)
  have ci: "axisCell (int (lut_size ?lut)) (real i / (real n - 1)) = (int i, i1, 0)"
    unfolding sz i1_def by (rule axisCell_grid [OF n i])
  have cj: "axisCell (int (lut_size ?lut)) (real j / (real n - 1)) = (int j, j1, 0)"
    unfolding sz j1_def by (rule axisCell_grid [OF n j])
  have ck: "axisCell (int (lut_size ?lut)) (real k / (real n - 1)) = (int k, k1, 0)"
    unfolding sz k1_def by (rule axisCell_grid [OF n k])
  note x00 = lerp3_grid [OF len b0(1,2) b0(3,4) b0(5,6) b1(1,2) b0(3,4) b0(5,6)]
  note x10 = lerp3_grid [OF len b0(1,2) b1(3,4) b0(5,6) b1(1,2) b1(3,4) b0(5,6)]
  note x01 = lerp3_grid [OF len b0(1,2) b0(3,4) b1(5,6) b1(1,2) b0(3,4) b1(5,6)]
  note x11 = lerp3_grid [OF len b0(1,2) b1(3,4) b1(5,6) b1(1,2) b1(3,4) b1(5,6)]
  show ?thesis
    unfolding sampleLUT3D_cells [OF ci cj ck] sz
    by (simp only: x00 x10 x01 x11 mix3_zero nat_int)
qed

lemma lut_size_generate: "lut_size (generate3DLUT n f) = n"
  by (simp add: generate3DLUT_def)

text \<open>
  C1. For a table built by \<open>generate3DLUT\<close> with size 17 from any look function \<open>f\<close>, and
  grid indices \<open>i, j, k < 17\<close>, sampling at the grid point \<open>(i/16, j/16, k/16)\<close> returns
  exactly the three values stored at the flat index \<open>((i\<cdot>17 + j)\<cdot>17 + k)\<cdot>3\<close>, which lies
  in the table, and these are the clamped channels of \<open>f\<close> at the grid point.
\<close>

theorem lut_grid_exact:
  assumes "i < 17" "j < 17" "k < 17"
  shows "sampleLUT3D (generate3DLUT 17 f) (real i / 16) (real j / 16) (real k / 16)
         = (Some (lut_data (generate3DLUT 17 f) ! (((i * 17 + j) * 17 + k) * 3)),
            Some (lut_data (generate3DLUT 17 f) ! (((i * 17 + j) * 17 + k) * 3 + 1)),
            Some (lut_data (generate3DLUT 17 f) ! (((i * 17 + j) * 17 + k) * 3 + 2)))
       \<and> ((i * 17 + j) * 17 + k) * 3 + 2 < length (lut_data (generate3DLUT 17 f))
       \<and> (lut_data (generate3DLUT 17 f) ! (((i * 17 + j) * 17 + k) * 3),
          lut_data (generate3DLUT 17 f) ! (((i * 17 + j) * 17 + k) * 3 + 1),
          lut_data (generate3DLUT 17 f) ! (((i * 17 + j) * 17 + k) * 3 + 2))
         = (case f (real i / 16) (real j / 16) (real k / 16) of
              (o0, o1, o2) \<Rightarrow> (clamp01 o0, clamp01 o1, clamp01 o2))"
proof -
  have s: "sampleLUT3D (generate3DLUT 17 f) (real i / 16) (real j / 16) (real k / 16)
         = (Some (lut_data (generate3DLUT 17 f) ! (((i * 17 + j) * 17 + k) * 3)),
            Some (lut_data (generate3DLUT 17 f) ! (((i * 17 + j) * 17 + k) * 3 + 1)),
            Some (lut_data (generate3DLUT 17 f) ! (((i * 17 + j) * 17 + k) * 3 + 2)))"
    using lut_grid_exact_gen [of 17 i j k f] assms by simp
  have l: "((i * 17 + j) * 17 + k) * 3 + 2 < length (lut_data (generate3DLUT 17 f))"
    using lut_index_less [OF assms, of 2] by (simp add: lut_data_length)
  have c: "lut_data (generate3DLUT 17 f) ! (((i * 17 + j) * 17 + k) * 3 + c)
           = lutCell 17 f i j k ! c" if "c < 3" for c
    using lut_data_nth [OF assms that] .
  have "(lut_data (generate3DLUT 17 f) ! (((i * 17 + j) * 17 + k) * 3),
          lut_data (generate3DLUT 17 f) ! (((i * 17 + j) * 17 + k) * 3 + 1),
          lut_data (generate3DLUT 17 f) ! (((i * 17 + j) * 17 + k) * 3 + 2))
         = (case f (real i / 16) (real j / 16) (real k / 16) of
              (o0, o1, o2) \<Rightarrow> (clamp01 o0, clamp01 o1, clamp01 o2))"
    using c [of 0] c [of 1] c [of 2]
    by (simp add: lutCell_def Let_def split: prod.splits)
  with s l show ?thesis by (simp only: simp_thms)
qed

text \<open>
  The grid point \<open>(8/16, 2/16, 3/16)\<close> of the table of a look that leaves the unit cube:
  the sample is the clamped output of the look.
\<close>

theorem lut_grid_exact_witness:
  "(8::nat) < 17 \<and> (2::nat) < 17 \<and> (3::nat) < 17
   \<and> sampleLUT3D (generate3DLUT 17 (\<lambda>r g b. (2 * r, g, b - 1)))
        (real 8 / 16) (real 2 / 16) (real 3 / 16)
      = (Some 1, Some (1/8), Some 0)"
  using lut_grid_exact [of 8 2 3 "\<lambda>r g b. (2 * r, g, b - 1)"]
  by (simp add: clamp01_def)

text \<open>
  C4, as the claim has it, fails for a query outside \<open>[0, 1]\<close>: at \<open>r = -1\<close> on a table
  of size 17 the bounding planes are \<open>-16\<close> and \<open>-15\<close>, the read of the corner is out of
  bounds, and the sample is \<^verbatim>\<open>NaN\<close> in every channel.
\<close>

theorem sample_out_of_range_counterexample:
  "axisCell 17 (-1) = (-16, -15, 0)
   \<and> rd (lut_data (generate3DLUT 17 (\<lambda>r g b. (r, g, b)))) (lutIdx 17 (-16) 0 0) = None
   \<and> sampleLUT3D (generate3DLUT 17 (\<lambda>r g b. (r, g, b))) (-1) 0 0 = (None, None, None)"
  by (simp add: sampleLUT3D_def lut_size_generate axisCell_def lutIdx_def rd_def lerp3_def
      mix3_def mixU_def Let_def)

text \<open>
  C4, amended. For a query in \<open>[0, 1]\<^sup>3\<close> and a table of size \<open>N \<ge> 1\<close> with \<open>N\<^sup>3\<cdot>3\<close>
  entries, the bounding planes of each axis lie in \<open>[0, N - 1]\<close>, every read at lattice
  indices in that range is in bounds, and the sample is a triple in \<open>[0, 1]\<^sup>3\<close> whenever
  the table data lies in \<open>[0, 1]\<close>.
\<close>

theorem sample_in_bounds:
  assumes n: "1 \<le> lut_size lut"
    and len: "length (lut_data lut) = lut_size lut * lut_size lut * lut_size lut * 3"
    and r: "0 \<le> r" "r \<le> 1" and g: "0 \<le> g" "g \<le> 1" and b: "0 \<le> b" "b \<le> 1"
  shows "(\<forall>v \<in> {r, g, b}. case axisCell (int (lut_size lut)) v of
            (v0, v1, t) \<Rightarrow> 0 \<le> v0 \<and> v0 \<le> int (lut_size lut) - 1
                          \<and> 0 \<le> v1 \<and> v1 \<le> int (lut_size lut) - 1)
       \<and> (\<forall>ri gi bi c. 0 \<le> ri \<and> ri \<le> int (lut_size lut) - 1
             \<and> 0 \<le> gi \<and> gi \<le> int (lut_size lut) - 1
             \<and> 0 \<le> bi \<and> bi \<le> int (lut_size lut) - 1 \<and> c < 3
             \<longrightarrow> rd (lut_data lut) (lutIdx (int (lut_size lut)) ri gi bi + int c) \<noteq> None)
       \<and> ((\<forall>x \<in> set (lut_data lut). 0 \<le> x \<and> x \<le> 1) \<longrightarrow> unit3 (sampleLUT3D lut r g b))"
proof -
  let ?n = "lut_size lut"
  have n1: "1 \<le> int ?n" using n by simp
  obtain r0 r1 tr where cr: "axisCell (int ?n) r = (r0, r1, tr)" by (cases "axisCell (int ?n) r")
  obtain g0 g1 tg where cg: "axisCell (int ?n) g = (g0, g1, tg)" by (cases "axisCell (int ?n) g")
  obtain b0 b1 tb where cb: "axisCell (int ?n) b = (b0, b1, tb)" by (cases "axisCell (int ?n) b")
  have br: "0 \<le> r0" "r0 < int ?n" "0 \<le> r1" "r1 < int ?n" "0 \<le> tr" "tr \<le> 1"
    using axisCell_unit [OF n1 r] cr by simp_all
  have bg: "0 \<le> g0" "g0 < int ?n" "0 \<le> g1" "g1 < int ?n" "0 \<le> tg" "tg \<le> 1"
    using axisCell_unit [OF n1 g] cg by simp_all
  have bb: "0 \<le> b0" "b0 < int ?n" "0 \<le> b1" "b1 < int ?n" "0 \<le> tb" "tb \<le> 1"
    using axisCell_unit [OF n1 b] cb by simp_all
  have A: "\<forall>v \<in> {r, g, b}. case axisCell (int ?n) v of
            (v0, v1, t) \<Rightarrow> 0 \<le> v0 \<and> v0 \<le> int ?n - 1 \<and> 0 \<le> v1 \<and> v1 \<le> int ?n - 1"
    using br bg bb cr cg cb by simp
  have B: "\<forall>ri gi bi c. 0 \<le> ri \<and> ri \<le> int ?n - 1 \<and> 0 \<le> gi \<and> gi \<le> int ?n - 1
             \<and> 0 \<le> bi \<and> bi \<le> int ?n - 1 \<and> c < 3
             \<longrightarrow> rd (lut_data lut) (lutIdx (int ?n) ri gi bi + int c) \<noteq> None"
  proof (intro allI impI)
    fix ri gi bi :: int and c :: nat
    assume h: "0 \<le> ri \<and> ri \<le> int ?n - 1 \<and> 0 \<le> gi \<and> gi \<le> int ?n - 1
             \<and> 0 \<le> bi \<and> bi \<le> int ?n - 1 \<and> c < 3"
    then have "0 \<le> ri" "ri < int ?n" "0 \<le> gi" "gi < int ?n" "0 \<le> bi" "bi < int ?n" "c < 3"
      by simp_all
    from rd_lut_Some [OF len this]
    show "rd (lut_data lut) (lutIdx (int ?n) ri gi bi + int c) \<noteq> None" by simp
  qed
  have C: "unit3 (sampleLUT3D lut r g b)" if unit: "\<forall>x \<in> set (lut_data lut). 0 \<le> x \<and> x \<le> 1"
  proof -
    note U = lerp3_unit [OF len unit]
    have x00: "unit3 (lerp3 (lut_data lut) (lutIdx (int ?n) r0 g0 b0) (lutIdx (int ?n) r1 g0 b0) tr)"
      by (rule U) (fact br bg bb)+
    have x10: "unit3 (lerp3 (lut_data lut) (lutIdx (int ?n) r0 g1 b0) (lutIdx (int ?n) r1 g1 b0) tr)"
      by (rule U) (fact br bg bb)+
    have x01: "unit3 (lerp3 (lut_data lut) (lutIdx (int ?n) r0 g0 b1) (lutIdx (int ?n) r1 g0 b1) tr)"
      by (rule U) (fact br bg bb)+
    have x11: "unit3 (lerp3 (lut_data lut) (lutIdx (int ?n) r0 g1 b1) (lutIdx (int ?n) r1 g1 b1) tr)"
      by (rule U) (fact br bg bb)+
    show ?thesis
      unfolding sampleLUT3D_cells [OF cr cg cb]
      by (intro mix3_unit x00 x10 x01 x11 bg bb)
  qed
  from A B C show ?thesis by blast
qed

text \<open>
  The identity table of size 2, sampled inside the unit cube.
\<close>

theorem sample_in_bounds_witness:
  "1 \<le> lut_size \<lparr>lut_size = 2, lut_data = [0,0,0, 0,0,1, 0,1,0, 0,1,1, 1,0,0, 1,0,1, 1,1,0, 1,1,1]\<rparr>
   \<and> length (lut_data \<lparr>lut_size = 2, lut_data = [0,0,0, 0,0,1, 0,1,0, 0,1,1, 1,0,0, 1,0,1, 1,1,0, 1,1,1]\<rparr>)
       = 2 * 2 * 2 * 3
   \<and> list_all (\<lambda>x. 0 \<le> x \<and> x \<le> 1)
         [0,0,0, 0,0,1, 0,1,0, 0,1,1, 1,0,0, 1,0,1, 1,1,0, 1,1,1 :: real]
   \<and> (0::real) \<le> 1/2 \<and> (1/2::real) \<le> 1 \<and> (0::real) \<le> 1/4 \<and> (1/4::real) \<le> 1
   \<and> (0::real) \<le> 1 \<and> (1::real) \<le> 1
   \<and> (case axisCell 2 (1/2) of (v0, v1, t) \<Rightarrow> 0 \<le> v0 \<and> v0 \<le> 1 \<and> 0 \<le> v1 \<and> v1 \<le> 1)
   \<and> rd [0,0,0, 0,0,1, 0,1,0, 0,1,1, 1,0,0, 1,0,1, 1,1,0, 1,1,1 :: real] (lutIdx 2 1 1 1 + int 2) \<noteq> None
   \<and> unit3 (sampleLUT3D
        \<lparr>lut_size = 2, lut_data = [0,0,0, 0,0,1, 0,1,0, 0,1,1, 1,0,0, 1,0,1, 1,1,0, 1,1,1]\<rparr>
        (1/2) (1/4) 1)"
proof -
  let ?d = "[0,0,0, 0,0,1, 0,1,0, 0,1,1, 1,0,0, 1,0,1, 1,1,0, 1,1,1] :: real list"
  let ?lut = "\<lparr>lut_size = 2, lut_data = ?d\<rparr>"
  have n: "1 \<le> lut_size ?lut" by simp
  have len: "length (lut_data ?lut) = lut_size ?lut * lut_size ?lut * lut_size ?lut * 3" by simp
  have unit: "\<forall>x \<in> set (lut_data ?lut). 0 \<le> x \<and> x \<le> 1" by simp
  note T = sample_in_bounds [of ?lut "1/2" "1/4" 1, OF n len]
  have A: "case axisCell 2 (1/2) of (v0, v1, t) \<Rightarrow> 0 \<le> v0 \<and> v0 \<le> 1 \<and> 0 \<le> v1 \<and> v1 \<le> 1"
    using T [THEN conjunct1] by simp
  have B: "rd ?d (lutIdx 2 1 1 1 + int 2) \<noteq> None"
    using T [THEN conjunct2, THEN conjunct1, rule_format, of 1 1 1 2] by simp
  have C: "unit3 (sampleLUT3D ?lut (1/2) (1/4) 1)"
    using T [THEN conjunct2, THEN conjunct2] unit by simp
  show ?thesis using A B C by simp
qed

section \<open>Properties of the Sobel edge detector\<close>

lemma concat_replicate_nth:
  assumes "i < n" "k < length xs"
  shows "concat (replicate n xs) ! (i * length xs + k) = xs ! k"
proof -
  have "replicate n xs = map (\<lambda>_. xs) [0..<n]"
    by (simp add: map_replicate_const)
  then show ?thesis
    using concat_blocks_nth [of n "\<lambda>_. xs" "length xs" i k] assms by simp
qed

lemma concat_replicate_length: "length (concat (replicate n xs)) = n * length xs"
  by (induction n) auto

lemma rd_int: "m < length xs \<Longrightarrow> rd xs (int m) = Some (xs ! m)"
  by (simp add: rd_def)

lemma uniform_rd:
  assumes "i < n" "k < 4"
  shows "rd (concat (replicate n [r, g, b, a])) (int (4 * i + k)) = Some ([r, g, b, a] ! k)"
proof -
  let ?xs = "concat (replicate n [r, g, b, a])"
  have len4: "length [r, g, b, a] = 4" by simp
  have lt: "4 * i + k < length ?xs"
    using assms by (simp add: concat_replicate_length)
  have e: "4 * i + k = i * 4 + k" by simp
  have "?xs ! (i * 4 + k) = [r, g, b, a] ! k"
    using concat_replicate_nth [of i n k "[r, g, b, a]"] assms by (simp only: len4)
  then have "?xs ! (4 * i + k) = [r, g, b, a] ! k" by (simp only: e)
  with rd_int [OF lt] show ?thesis by (simp only:)
qed

lemma grayAt_uniform:
  assumes "i < n"
  shows "grayAt (concat (replicate n [r, g, b, a])) i
         = Some (0.2126 * real (unat r) + 0.7152 * real (unat g) + 0.0722 * real (unat b))"
  using uniform_rd [OF assms, of 0 r g b a] uniform_rd [OF assms, of 1 r g b a]
    uniform_rd [OF assms, of 2 r g b a]
  by (simp add: grayAt_def)

lemma grayOf_uniform:
  "grayOf (concat (replicate n [r, g, b, a])) n
   = replicate n (Some (0.2126 * real (unat r) + 0.7152 * real (unat g) + 0.0722 * real (unat b)))"
  by (rule nth_equalityI) (simp_all add: grayOf_def grayAt_uniform)

lemma rdNum_replicate: "0 \<le> j \<Longrightarrow> j < int n \<Longrightarrow> rdNum (replicate n (Some c)) j = Some c"
  by (simp add: rdNum_def rd_def)

lemma sobelMag_uniform:
  assumes y: "1 \<le> y" "y + 1 < h" and x: "1 \<le> x" "x + 1 < w"
  shows "sobelMag (replicate (w * h) (Some c)) (int w) (int (y * w + x)) = Some 0"
proof -
  have "w \<le> y * w" using y(1) by simp
  then have "w + 1 \<le> y * w + x" using x(1) by linarith
  then have "int (w + 1) \<le> int (y * w + x)" by (simp only: of_nat_le_iff)
  then have lo: "int w + 1 \<le> int (y * w + x)" by simp
  have "(y + 1) * w + (x + 1) < h * w" using y(2) x(2) by (rule block_index_less)
  then have "y * w + x + w + 1 < w * h" by (simp add: algebra_simps)
  then have "int (y * w + x + w + 1) < int (w * h)" by (simp only: of_nat_less_iff)
  then have hi: "int (y * w + x) + int w + 1 < int (w * h)" by simp
  have R: "rdNum (replicate (w * h) (Some c)) j = Some c"
    if "int (y * w + x) - int w - 1 \<le> j" "j \<le> int (y * w + x) + int w + 1" for j
    using that lo hi by (intro rdNum_replicate) linarith+
  show ?thesis
    unfolding sobelMag_def by (simp add: R Let_def)
qed

lemma toUint8Clamped_zero: "toUint8Clamped (Some 0) = 0"
  by (simp add: toUint8Clamped_def roundHalfEven_def)

lemma sobelPixel_uniform:
  assumes "1 \<le> y" "y + 1 < h" "1 \<le> x" "x + 1 < w"
  shows "sobelPixel (replicate (w * h) (Some c)) w out (y, x)
         = out[(y * w + x) * 4 := 0, (y * w + x) * 4 + 1 := 0, (y * w + x) * 4 + 2 := 0,
               (y * w + x) * 4 + 3 := 255]"
  unfolding sobelPixel_def prod.case Let_def sobelMag_uniform [OF assms]
  by (simp add: toUint8Clamped_zero)

lemma paint_nth:
  fixes out :: "byte list"
  assumes "j * 4 + k < length out" "k < 4"
  shows "out[i * 4 := 0, i * 4 + 1 := 0, i * 4 + 2 := 0, i * 4 + 3 := 255] ! (j * 4 + k)
         = (if j = i then (if k = 3 then 255 else 0) else out ! (j * 4 + k))"
proof (cases "j = i")
  case True
  have len: "i * 4 + k < length out" using assms(1) True by simp
  consider "k = 0" | "k = 1" | "k = 2" | "k = 3" using assms(2) by linarith
  then show ?thesis
    using len by cases (simp_all add: True nth_list_update)
next
  case False
  then have "i * 4 \<noteq> j * 4 + k" "i * 4 + 1 \<noteq> j * 4 + k" "i * 4 + 2 \<noteq> j * 4 + k"
    "i * 4 + 3 \<noteq> j * 4 + k"
    using assms(2) by presburger+
  then show ?thesis using False by simp
qed

lemma sobel_fold_uniform:
  fixes out :: "byte list"
  assumes "\<forall>p \<in> set ps. 1 \<le> fst p \<and> fst p + 1 < h \<and> 1 \<le> snd p \<and> snd p + 1 < w"
  shows "length (foldl (sobelPixel (replicate (w * h) (Some c)) w) out ps) = length out
       \<and> (\<forall>j k. j * 4 + k < length out \<and> k < 4 \<longrightarrow>
            foldl (sobelPixel (replicate (w * h) (Some c)) w) out ps ! (j * 4 + k)
            = (if j \<in> (\<lambda>p. fst p * w + snd p) ` set ps then (if k = 3 then 255 else 0)
               else out ! (j * 4 + k)))"
  using assms
proof (induction ps arbitrary: out)
  case Nil
  then show ?case by simp
next
  case (Cons p ps)
  obtain y x where p: "p = (y, x)" by (cases p)
  have int: "1 \<le> y" "y + 1 < h" "1 \<le> x" "x + 1 < w" using Cons.prems p by simp_all
  let ?out1 = "out[(y * w + x) * 4 := 0, (y * w + x) * 4 + 1 := 0, (y * w + x) * 4 + 2 := 0,
               (y * w + x) * 4 + 3 := 255]"
  have step: "sobelPixel (replicate (w * h) (Some c)) w out p = ?out1"
    unfolding p by (rule sobelPixel_uniform [OF int])
  have l1: "length ?out1 = length out" by simp
  have rest: "\<forall>p \<in> set ps. 1 \<le> fst p \<and> fst p + 1 < h \<and> 1 \<le> snd p \<and> snd p + 1 < w"
    using Cons.prems by simp
  note IH = Cons.IH [OF rest, of ?out1]
  show ?case
  proof (intro conjI allI impI)
    show "length (foldl (sobelPixel (replicate (w * h) (Some c)) w) out (p # ps)) = length out"
      using IH l1 by (simp add: step)
  next
    fix j k assume jk: "j * 4 + k < length out \<and> k < 4"
    then have jk1: "j * 4 + k < length ?out1 \<and> k < 4" by simp
    have "foldl (sobelPixel (replicate (w * h) (Some c)) w) out (p # ps) ! (j * 4 + k)
        = foldl (sobelPixel (replicate (w * h) (Some c)) w) ?out1 ps ! (j * 4 + k)"
      by (simp add: step)
    also have "\<dots> = (if j \<in> (\<lambda>p. fst p * w + snd p) ` set ps then (if k = 3 then 255 else 0)
               else ?out1 ! (j * 4 + k))"
      using IH jk1 by blast
    also have "?out1 ! (j * 4 + k)
        = (if j = y * w + x then (if k = 3 then 255 else 0) else out ! (j * 4 + k))"
      using jk by (intro paint_nth) simp_all
    finally show "foldl (sobelPixel (replicate (w * h) (Some c)) w) out (p # ps) ! (j * 4 + k)
        = (if j \<in> (\<lambda>p. fst p * w + snd p) ` set (p # ps) then (if k = 3 then 255 else 0)
           else out ! (j * 4 + k))"
      by (auto simp: p)
  qed
qed

lemma cell_index_inj:
  assumes "x < w" "x' < w" "y * w + x = y' * w + x'"
  shows "y = y' \<and> x = (x'::nat)"
proof -
  have "(y * w + x) div w = y" "(y * w + x) mod w = x" using assms(1) by simp_all
  moreover have "(y' * w + x') div w = y'" "(y' * w + x') mod w = x'" using assms(2) by simp_all
  ultimately show ?thesis using assms(3) by metis
qed

lemma interior_index:
  assumes "x < w"
  shows "y * w + x \<in> (\<lambda>p. fst p * w + snd p) ` set (List.product [1..<h - 1] [1..<w - 1])
         \<longleftrightarrow> 1 \<le> y \<and> y < h - 1 \<and> 1 \<le> x \<and> x < w - 1"
proof
  assume "y * w + x \<in> (\<lambda>p. fst p * w + snd p) ` set (List.product [1..<h - 1] [1..<w - 1])"
  then obtain y' x' where m: "1 \<le> y'" "y' < h - 1" "1 \<le> x'" "x' < w - 1"
      and e: "y * w + x = y' * w + x'"
    by auto
  have "x' < w" using m(4) by simp
  from cell_index_inj [OF assms this e] m
  show "1 \<le> y \<and> y < h - 1 \<and> 1 \<le> x \<and> x < w - 1" by simp
next
  assume "1 \<le> y \<and> y < h - 1 \<and> 1 \<le> x \<and> x < w - 1"
  then have "(y, x) \<in> set (List.product [1..<h - 1] [1..<w - 1])" by simp
  then show "y * w + x \<in> (\<lambda>p. fst p * w + snd p) ` set (List.product [1..<h - 1] [1..<w - 1])"
    by force
qed

lemma byteAt_nth: "m < length d \<Longrightarrow> byteAt d m = d ! m"
  by (simp add: byteAt_def rd_def)

text \<open>
  C6. For a flat-colour frame (\<open>w\<cdot>h\<close> copies of the four bytes of one pixel \<open>p\<close>) with
  \<open>w \<ge> 3\<close> and \<open>h \<ge> 3\<close>, \<open>sobelEdge\<close> returns an image of the same width, height and
  length whose interior pixels are \<open>(0, 0, 0, 255)\<close> and whose border pixels are
  \<open>(0, 0, 0, 0)\<close>.
\<close>

theorem sobel_uniform:
  assumes w: "3 \<le> w" and h: "3 \<le> h"
    and flat: "data img = concat (replicate (w * h) (bytesOf p))"
  shows "\<exists>out. sobelEdge img w h = Inr out \<and> width out = w \<and> height out = h
           \<and> length (data out) = length (data img)
           \<and> (\<forall>x y. x < w \<and> y < h \<longrightarrow>
                 pixelAt out x y = (if 1 \<le> x \<and> x < w - 1 \<and> 1 \<le> y \<and> y < h - 1
                                    then (0, 0, 0, 255) else (0, 0, 0, 0)))"
proof -
  obtain r g b a where p: "p = (r, g, b, a)" by (cases p)
  define c where "c = 0.2126 * real (unat r) + 0.7152 * real (unat g) + 0.0722 * real (unat b)"
  define ps where "ps = List.product [1..<h - 1] [1..<w - 1]"
  define out where
    "out = foldl (sobelPixel (replicate (w * h) (Some c)) w) (replicate (length (data img)) 0) ps"
  have src: "data img = concat (replicate (w * h) [r, g, b, a])"
    using flat by (simp add: p bytesOf_def)
  have len: "length (data img) = w * h * 4"
    by (simp add: src concat_replicate_length)
  have gray: "grayOf (data img) (w * h) = replicate (w * h) (Some c)"
    unfolding src c_def by (rule grayOf_uniform)
  have inner: "\<forall>q \<in> set ps. 1 \<le> fst q \<and> fst q + 1 < h \<and> 1 \<le> snd q \<and> snd q + 1 < w"
    by (auto simp: ps_def)
  note F = sobel_fold_uniform [OF inner, of c "replicate (length (data img)) 0", folded out_def]
  have lout: "length out = w * h * 4" using F len by simp
  have wh: "0 < w * h" using w h by simp
  have run: "sobelEdge img w h = newImageData out w h"
    by (simp add: sobelEdge_def Let_def gray out_def ps_def)
  have "w * h * 4 mod 4 = 0" "w * h * 4 div 4 = w * h" "w * h mod w = 0" "w * h div w = h"
    using w by simp_all
  then have new: "newImageData out w h = Inr \<lparr>width = w, height = h, data = out\<rparr>"
    using wh w lout by (simp add: newImageData_def)
  have px: "pixelAt \<lparr>width = w, height = h, data = out\<rparr> x y
        = (if 1 \<le> x \<and> x < w - 1 \<and> 1 \<le> y \<and> y < h - 1 then (0, 0, 0, 255) else (0, 0, 0, 0))"
    if xy: "x < w" "y < h" for x y
  proof -
    have "y * w + x < h * w" using xy(2,1) by (rule block_index_less)
    then have lt: "(y * w + x) * 4 + k < length out" if "k < 4" for k
      using block_index_less [of "y * w + x" "h * w" k 4] that lout
      by (simp only: mult.commute [of h w])
    have at: "byteAt out (4 * (y * w + x) + k)
        = (if 1 \<le> y \<and> y < h - 1 \<and> 1 \<le> x \<and> x < w - 1 then (if k = 3 then 255 else 0) else 0)"
      if k: "k < 4" for k
    proof -
      have e: "4 * (y * w + x) + k = (y * w + x) * 4 + k" by simp
      have l0: "(y * w + x) * 4 + k < length (replicate (length (data img)) (0::byte))"
        using lt [OF k] lout len by simp
      have "out ! ((y * w + x) * 4 + k)
          = (if y * w + x \<in> (\<lambda>p. fst p * w + snd p) ` set ps then (if k = 3 then 255 else 0)
             else replicate (length (data img)) 0 ! ((y * w + x) * 4 + k))"
        using F l0 k by blast
      then show ?thesis
        unfolding e ps_def interior_index [OF xy(1)]
        using lt [OF k] l0 by (simp add: byteAt_nth)
    qed
    show ?thesis
      using at [of 0] at [of 1] at [of 2] at [of 3] xy
      by (simp add: pixelAt_def Let_def)
  qed
  show ?thesis
    unfolding run new using lout len px by simp
qed

text \<open>
  A flat frame of 3 by 4 pixels: two interior pixels and two border pixels of the result.
\<close>

theorem sobel_uniform_witness:
  "(3::nat) \<le> 3 \<and> (3::nat) \<le> 4
   \<and> data (mkImage 3 4 (\<lambda>x y. (10, 20, 30, 255))) = concat (replicate (3 * 4) (bytesOf (10, 20, 30, 255)))
   \<and> (\<exists>out. sobelEdge (mkImage 3 4 (\<lambda>x y. (10, 20, 30, 255))) 3 4 = Inr out
         \<and> pixelAt out 1 1 = (0, 0, 0, 255) \<and> pixelAt out 1 2 = (0, 0, 0, 255)
         \<and> pixelAt out 0 1 = (0, 0, 0, 0) \<and> pixelAt out 2 3 = (0, 0, 0, 0))"
proof -
  have d: "data (mkImage 3 4 (\<lambda>x y. (10, 20, 30, 255)))
      = concat (replicate (3 * 4) (bytesOf (10, 20, 30, 255)))"
    by (simp add: mkImage_def bytesOf_def upt_rec [of 0] upt_rec [of 1] upt_rec [of 2] upt_rec [of 3] eval_nat_numeral)
  from sobel_uniform [of 3 4 "mkImage 3 4 (\<lambda>x y. (10, 20, 30, 255))" "(10, 20, 30, 255)", OF _ _ d]
  obtain out where o: "sobelEdge (mkImage 3 4 (\<lambda>x y. (10, 20, 30, 255))) 3 4 = Inr out"
    and px: "\<forall>x y. x < 3 \<and> y < 4 \<longrightarrow>
                 pixelAt out x y = (if 1 \<le> x \<and> x < 3 - 1 \<and> 1 \<le> y \<and> y < 4 - 1
                                    then (0, 0, 0, 255) else (0, 0, 0, 0))"
    by auto
  have "pixelAt out 1 1 = (0, 0, 0, 255)" "pixelAt out 1 2 = (0, 0, 0, 255)"
    "pixelAt out 0 1 = (0, 0, 0, 0)" "pixelAt out 2 3 = (0, 0, 0, 0)"
    using px by simp_all
  with o d show ?thesis by simp
qed

section \<open>Properties of the mirror pass\<close>

lemma bytesOf_length: "length (bytesOf p) = 4"
  by (cases p) (simp add: bytesOf_def)

lemma mkImage_length: "length (data (mkImage w h px)) = h * (w * 4)"
  by (simp add: mkImage_def concat_blocks_length bytesOf_length)

lemma mkImage_nth:
  assumes "x < w" "y < h" "k < 4"
  shows "data (mkImage w h px) ! (4 * (y * w + x) + k) = bytesOf (px x y) ! k"
proof -
  let ?row = "\<lambda>y. concat (map (\<lambda>x. bytesOf (px x y)) [0..<w])"
  have lr: "\<And>y. length (?row y) = w * 4"
    by (simp add: concat_blocks_length bytesOf_length)
  have i1: "x * 4 + k < w * 4" using assms(1,3) by (rule block_index_less)
  have e: "4 * (y * w + x) + k = y * (w * 4) + (x * 4 + k)" by (simp add: algebra_simps)
  have "concat (map ?row [0..<h]) ! (y * (w * 4) + (x * 4 + k)) = ?row y ! (x * 4 + k)"
    by (rule concat_blocks_nth) (simp_all add: lr assms(2) i1)
  also have "\<dots> = bytesOf (px x y) ! k"
    by (rule concat_blocks_nth) (simp_all add: bytesOf_length assms(1,3))
  finally show ?thesis unfolding e by (simp add: mkImage_def)
qed

lemma mkImage_byteAt:
  assumes "x < w" "y < h" "k < 4"
  shows "byteAt (data (mkImage w h px)) (4 * (y * w + x) + k) = bytesOf (px x y) ! k"
proof -
  have "y * w + x < h * w" using assms(2,1) by (rule block_index_less)
  then have "(y * w + x) * 4 + k < h * w * 4" using assms(3) by (rule block_index_less)
  then have "4 * (y * w + x) + k < length (data (mkImage w h px))"
    by (simp add: mkImage_length algebra_simps)
  then show ?thesis
    using mkImage_nth [OF assms] by (simp add: byteAt_nth)
qed

lemma mkImage_dims: "width (mkImage w h px) = w" "height (mkImage w h px) = h"
  by (simp_all add: mkImage_def)

lemma pixelAt_mkImage:
  assumes "x < w" "y < h"
  shows "pixelAt (mkImage w h px) x y = px x y"
proof -
  obtain r g b a where p: "px x y = (r, g, b, a)" by (cases "px x y")
  have "byteAt (data (mkImage w h px)) (4 * (y * w + x)) = r"
    using mkImage_byteAt [OF assms, of 0 px] by (simp add: p bytesOf_def)
  moreover have "byteAt (data (mkImage w h px)) (4 * (y * w + x) + 1) = g"
    using mkImage_byteAt [OF assms, of 1 px] by (simp add: p bytesOf_def)
  moreover have "byteAt (data (mkImage w h px)) (4 * (y * w + x) + 2) = b"
    using mkImage_byteAt [OF assms, of 2 px] by (simp add: p bytesOf_def)
  moreover have "byteAt (data (mkImage w h px)) (4 * (y * w + x) + 3) = a"
    using mkImage_byteAt [OF assms, of 3 px] by (simp add: p bytesOf_def)
  ultimately show ?thesis
    using assms by (simp add: pixelAt_def Let_def mkImage_dims p)
qed

lemma pixelAt_putImageData:
  assumes "x < width canvas" "y < height canvas"
  shows "pixelAt (putImageData img canvas) x y
         = (if x < width img \<and> y < height img then pixelAt img x y else pixelAt canvas x y)"
  unfolding putImageData_def by (simp add: pixelAt_mkImage [OF assms])

lemma find_unknown:
  "filterKey \<notin> key ` set FilterList \<Longrightarrow> find (\<lambda>f. key f = filterKey) FilterList = None"
  by (auto simp: find_None_iff)

text \<open>
  C8. For a filter key that is not in \<open>FilterList\<close> and is neither \<open>pixelate\<close> nor
  \<open>edge\<close>, \<open>apply\<close> with nonzero dimensions leaves the pipeline as it is and performs the
  mirror pass with the filter \<open>none\<close>: on the canvas, the pixel at column \<open>x\<close> is the pixel
  of the drawn source at column \<open>w - 1 - x\<close>, and the drawn source is the video frame
  itself when the frame has the pipeline's dimensions.
\<close>

theorem unknown_key_mirrors:
  assumes "filterKey \<notin> key ` set FilterList" "filterKey \<noteq> ''pixelate''" "filterKey \<noteq> ''edge''"
    and "this_w st \<noteq> 0" "this_h st \<noteq> 0"
  shows "pipeline_apply br st offCtx video filterKey now
         = Inr (st, drawMirrored br offCtx video (this_w st) (this_h st) ''none'')
       \<and> (\<forall>x y. x < this_w st \<and> y < this_h st \<and> x < width offCtx \<and> y < height offCtx \<longrightarrow>
            pixelAt (drawMirrored br offCtx video (this_w st) (this_h st) ''none'') x y
            = pixelAt (drawImage br True video (this_w st) (this_h st)) (this_w st - 1 - x) y)
       \<and> (width video = this_w st \<and> height video = this_h st \<longrightarrow>
            drawImage br True video (this_w st) (this_h st) = video)"
proof (intro conjI allI impI)
  show "pipeline_apply br st offCtx video filterKey now
         = Inr (st, drawMirrored br offCtx video (this_w st) (this_h st) ''none'')"
    using assms by (simp add: pipeline_apply_def Let_def find_unknown)
next
  fix x y
  assume "x < this_w st \<and> y < this_h st \<and> x < width offCtx \<and> y < height offCtx"
  then show "pixelAt (drawMirrored br offCtx video (this_w st) (this_h st) ''none'') x y
            = pixelAt (drawImage br True video (this_w st) (this_h st)) (this_w st - 1 - x) y"
    by (simp add: drawMirrored_def Let_def pixelAt_putImageData mkImage_dims pixelAt_mkImage)
next
  assume "width video = this_w st \<and> height video = this_h st"
  then show "drawImage br True video (this_w st) (this_h st) = video"
    by (simp add: drawImage_def)
qed

text \<open>
  The key \<open>sepia\<close> is in no entry of \<open>FilterList\<close>: a frame of two pixels comes out
  with its columns exchanged.
\<close>

theorem unknown_key_mirrors_witness:
  "''sepia'' \<notin> key ` set FilterList \<and> ''sepia'' \<noteq> ''pixelate'' \<and> ''sepia'' \<noteq> ''edge''
   \<and> this_w (resize newFilterPipeline 2 1) \<noteq> 0 \<and> this_h (resize newFilterPipeline 2 1) \<noteq> 0
   \<and> pipeline_apply \<lparr>scaleImage = (\<lambda>s img w h. img), cssDraw = (\<lambda>f img c. c)\<rparr>
        (resize newFilterPipeline 2 1) (mkImage 2 1 (\<lambda>x y. (0, 0, 0, 0)))
        (mkImage 2 1 (\<lambda>x y. if x = 0 then (1, 2, 3, 255) else (4, 5, 6, 255))) ''sepia'' 0
      = Inr (resize newFilterPipeline 2 1,
             drawMirrored \<lparr>scaleImage = (\<lambda>s img w h. img), cssDraw = (\<lambda>f img c. c)\<rparr>
               (mkImage 2 1 (\<lambda>x y. (0, 0, 0, 0)))
               (mkImage 2 1 (\<lambda>x y. if x = 0 then (1, 2, 3, 255) else (4, 5, 6, 255))) 2 1 ''none'')
   \<and> pixelAt (drawMirrored \<lparr>scaleImage = (\<lambda>s img w h. img), cssDraw = (\<lambda>f img c. c)\<rparr>
               (mkImage 2 1 (\<lambda>x y. (0, 0, 0, 0)))
               (mkImage 2 1 (\<lambda>x y. if x = 0 then (1, 2, 3, 255) else (4, 5, 6, 255))) 2 1 ''none'')
        0 0 = (4, 5, 6, 255)"
proof -
  let ?br = "\<lparr>scaleImage = (\<lambda>s img w h. img), cssDraw = (\<lambda>f img c. c)\<rparr>"
  let ?st = "resize newFilterPipeline 2 1"
  let ?ctx = "mkImage 2 1 (\<lambda>x y. (0, 0, 0, 0))"
  let ?video = "mkImage 2 1 (\<lambda>x y. if x = 0 then (1, 2, 3, 255) else (4, 5, 6, 255))"
  have k: "''sepia'' \<notin> key ` set FilterList" "''sepia'' \<noteq> ''pixelate''" "''sepia'' \<noteq> ''edge''"
    by (simp_all add: FilterList_def)
  have d: "this_w ?st = 2" "this_h ?st = 1"
    by (simp_all add: resize_def newFilterPipeline_def Let_def)
  have d0: "this_w ?st \<noteq> 0" "this_h ?st \<noteq> 0" using d by simp_all
  note T = unknown_key_mirrors [OF k d0, of ?br ?ctx ?video 0, unfolded d]
  have "pixelAt (drawMirrored ?br ?ctx ?video 2 1 ''none'') 0 0
        = pixelAt (drawImage ?br True ?video 2 1) (2 - 1 - 0) 0"
    using T [THEN conjunct2, THEN conjunct1, rule_format, of 0 0] by (simp add: mkImage_dims)
  also have "drawImage ?br True ?video 2 1 = ?video"
    using T [THEN conjunct2, THEN conjunct2] by (simp add: mkImage_dims)
  also have "pixelAt ?video (2 - 1 - 0) 0 = (4, 5, 6, 255)"
    by (simp add: pixelAt_mkImage)
  finally have px: "pixelAt (drawMirrored ?br ?ctx ?video 2 1 ''none'') 0 0 = (4, 5, 6, 255)" .
  show ?thesis using k d0 T [THEN conjunct1] px by simp
qed


section \<open>Properties of the edge throttle\<close>

lemma sobelPixel_length: "length (sobelPixel gray w out p) = length out"
  by (cases p) (simp add: sobelPixel_def Let_def)

lemma sobel_fold_length: "length (foldl (sobelPixel gray w) out ps) = length out"
  by (induction ps arbitrary: out) (simp_all add: sobelPixel_length)

lemma sobelEdge_total:
  assumes "length (data img) = h * (w * 4)" "0 < w" "0 < h"
  shows "\<exists>d. sobelEdge img w h = Inr \<lparr>width = w, height = h, data = d\<rparr>"
proof -
  define out where
    "out = foldl (sobelPixel (grayOf (data img) (w * h)) w) (replicate (length (data img)) 0)
             (List.product [1..<h - 1] [1..<w - 1])"
  have l: "length out = h * (w * 4)"
    using assms(1) by (simp add: out_def sobel_fold_length)
  have "h * (w * 4) mod 4 = 0" "h * (w * 4) div 4 = h * w" "h * w mod w = 0" "h * w div w = h"
    using assms(2) by simp_all
  moreover have "h * (w * 4) \<noteq> 0" using assms(2,3) by simp
  ultimately have "newImageData out w h = Inr \<lparr>width = w, height = h, data = out\<rparr>"
    using assms(2) l by (simp add: newImageData_def)
  moreover have "sobelEdge img w h = newImageData out w h"
    by (simp add: sobelEdge_def Let_def out_def)
  ultimately show ?thesis by simp
qed

lemma find_edge: "find (\<lambda>f. key f = ''edge'') FilterList = None"
  by (simp add: FilterList_def)

lemma apply_edge:
  "pipeline_apply br st offCtx video ''edge'' now = renderEdge br st offCtx video now"
  by (simp add: pipeline_apply_def Let_def find_edge renderEdge_def)

lemma renderEdge_compute:
  assumes "this_w st \<noteq> 0" "this_h st \<noteq> 0"
    and "(frameCounter (edgeCache st) + 1) mod (skip (edgeCache st) + 1) = 0
         \<or> imageData (edgeCache st) = None"
  shows "\<exists>d. sobelEdge (getImageData (drawMirrored br offCtx video (this_w st) (this_h st) ''none'')
                 (this_w st) (this_h st)) (this_w st) (this_h st)
              = Inr \<lparr>width = this_w st, height = this_h st, data = d\<rparr>
           \<and> renderEdge br st offCtx video now
             = Inr (st\<lparr>edgeCache := (edgeCache st)
                        \<lparr>frameCounter := frameCounter (edgeCache st) + 1,
                         imageData := Some \<lparr>width = this_w st, height = this_h st, data = d\<rparr>,
                         lastUpdateTs := now\<rparr>,
                      trace := trace st @ [ComputeSobel (frameCounter (edgeCache st) + 1)]\<rparr>,
                    putImageData \<lparr>width = this_w st, height = this_h st, data = d\<rparr>
                      (drawMirrored br offCtx video (this_w st) (this_h st) ''none''))"
proof -
  let ?c1 = "drawMirrored br offCtx video (this_w st) (this_h st) ''none''"
  have "length (data (getImageData ?c1 (this_w st) (this_h st))) = this_h st * (this_w st * 4)"
    by (simp add: getImageData_def mkImage_length)
  from sobelEdge_total [OF this] assms(1,2)
  obtain d where d: "sobelEdge (getImageData ?c1 (this_w st) (this_h st)) (this_w st) (this_h st)
              = Inr \<lparr>width = this_w st, height = this_h st, data = d\<rparr>"
    by auto
  show ?thesis
    using assms d by (auto simp: renderEdge_def Let_def)
qed

lemma renderEdge_reuse:
  assumes "this_w st \<noteq> 0" "this_h st \<noteq> 0"
    and "(frameCounter (edgeCache st) + 1) mod (skip (edgeCache st) + 1) \<noteq> 0"
    and "imageData (edgeCache st) = Some cached"
  shows "renderEdge br st offCtx video now
         = Inr (st\<lparr>edgeCache := (edgeCache st)\<lparr>frameCounter := frameCounter (edgeCache st) + 1\<rparr>\<rparr>,
                putImageData cached (drawMirrored br offCtx video (this_w st) (this_h st) ''none''))"
  using assms by (simp add: renderEdge_def Let_def)

lemma edge_step:
  assumes "this_w st \<noteq> 0" "this_h st \<noteq> 0"
  shows "\<exists>st' out. pipeline_apply br st offCtx video ''edge'' now = Inr (st', out)
           \<and> this_w st' = this_w st \<and> this_h st' = this_h st
           \<and> frameCounter (edgeCache st') = frameCounter (edgeCache st) + 1
           \<and> skip (edgeCache st') = skip (edgeCache st)
           \<and> imageData (edgeCache st') \<noteq> None
           \<and> lutCache st' = lutCache st
           \<and> trace st' = trace st @
               (if (frameCounter (edgeCache st) + 1) mod (skip (edgeCache st) + 1) = 0
                   \<or> imageData (edgeCache st) = None
                then [ComputeSobel (frameCounter (edgeCache st) + 1)] else [])"
proof (cases "(frameCounter (edgeCache st) + 1) mod (skip (edgeCache st) + 1) = 0
              \<or> imageData (edgeCache st) = None")
  case True
  from renderEdge_compute [OF assms True, of br offCtx video now]
  show ?thesis unfolding apply_edge using True by auto
next
  case False
  then obtain cached where c: "imageData (edgeCache st) = Some cached" by auto
  from False have m: "(frameCounter (edgeCache st) + 1) mod (skip (edgeCache st) + 1) \<noteq> 0"
    by simp
  show ?thesis
    unfolding apply_edge renderEdge_reuse [OF assms m c] using False c by simp
qed

lemma edge_run:
  assumes "this_w st \<noteq> 0" "this_h st \<noteq> 0"
  shows "\<exists>st' outs. runCalls br st (map edgeCall xs) = Inr (st', outs)
           \<and> length outs = length xs
           \<and> this_w st' = this_w st \<and> this_h st' = this_h st
           \<and> frameCounter (edgeCache st') = frameCounter (edgeCache st) + length xs
           \<and> skip (edgeCache st') = skip (edgeCache st)
           \<and> trace st' = trace st @ map ComputeSobel
               (filter (\<lambda>fc. fc mod (skip (edgeCache st) + 1) = 0
                          \<or> (fc = frameCounter (edgeCache st) + 1 \<and> imageData (edgeCache st) = None))
                  [frameCounter (edgeCache st) + 1 ..< frameCounter (edgeCache st) + 1 + length xs])"
  using assms
proof (induction xs arbitrary: st)
  case Nil
  then show ?case by simp
next
  case (Cons x xs)
  obtain offCtx video now where x: "x = (offCtx, video, now)" by (cases x)
  let ?fc = "frameCounter (edgeCache st)"
  let ?sk = "skip (edgeCache st)"
  let ?P = "\<lambda>fc. fc mod (?sk + 1) = 0 \<or> (fc = ?fc + 1 \<and> imageData (edgeCache st) = None)"
  from edge_step [OF Cons.prems, of br offCtx video now]
  obtain st1 out where s1: "pipeline_apply br st offCtx video ''edge'' now = Inr (st1, out)"
    and d1: "this_w st1 = this_w st" "this_h st1 = this_h st"
    and f1: "frameCounter (edgeCache st1) = ?fc + 1"
    and k1: "skip (edgeCache st1) = ?sk"
    and i1: "imageData (edgeCache st1) \<noteq> None"
    and t1: "trace st1 = trace st @ (if ?P (?fc + 1) then [ComputeSobel (?fc + 1)] else [])"
    by auto
  have dims1: "this_w st1 \<noteq> 0" "this_h st1 \<noteq> 0" using d1 Cons.prems by simp_all
  from Cons.IH [OF dims1]
  obtain st2 outs where s2: "runCalls br st1 (map edgeCall xs) = Inr (st2, outs)"
    and l2: "length outs = length xs"
    and d2: "this_w st2 = this_w st1" "this_h st2 = this_h st1"
    and f2: "frameCounter (edgeCache st2) = frameCounter (edgeCache st1) + length xs"
    and k2: "skip (edgeCache st2) = skip (edgeCache st1)"
    and t2: "trace st2 = trace st1 @ map ComputeSobel
               (filter (\<lambda>fc. fc mod (skip (edgeCache st1) + 1) = 0
                          \<or> (fc = frameCounter (edgeCache st1) + 1 \<and> imageData (edgeCache st1) = None))
                  [frameCounter (edgeCache st1) + 1 ..< frameCounter (edgeCache st1) + 1 + length xs])"
    by blast
  have tail: "filter (\<lambda>fc. fc mod (skip (edgeCache st1) + 1) = 0
                          \<or> (fc = frameCounter (edgeCache st1) + 1 \<and> imageData (edgeCache st1) = None))
                  [frameCounter (edgeCache st1) + 1 ..< frameCounter (edgeCache st1) + 1 + length xs]
              = filter ?P [?fc + 2 ..< ?fc + 2 + length xs]"
    unfolding f1 k1 using i1 by (intro filter_cong) auto
  have split: "[?fc + 1 ..< ?fc + 1 + length (x # xs)] = (?fc + 1) # [?fc + 2 ..< ?fc + 2 + length xs]"
    using upt_conv_Cons [of "?fc + 1" "?fc + 1 + length (x # xs)"] by simp
  have run: "runCalls br st (map edgeCall (x # xs)) = Inr (st2, out # outs)"
    by (simp add: x edgeCall_def s1 s2)
  have tr: "trace st2 = trace st @ map ComputeSobel (filter ?P [?fc + 1 ..< ?fc + 1 + length (x # xs)])"
    unfolding split t2 tail t1 by simp
  show ?case
    using run l2 d1 d2 f1 f2 k1 k2 tr by simp
qed

lemma fresh_resized:
  assumes "w \<noteq> 0" "h \<noteq> 0"
  shows "this_w (resize newFilterPipeline w h) = w" "this_h (resize newFilterPipeline w h) = h"
    "edgeCache (resize newFilterPipeline w h)
     = \<lparr>imageData = None, lastUpdateTs = 0, frameCounter = 0, skip = 1\<rparr>"
    "trace (resize newFilterPipeline w h) = []"
    "lutCache (resize newFilterPipeline w h) = Map.empty"
  using assms by (simp_all add: resize_def newFilterPipeline_def Let_def)

lemma fresh_four_frames:
  assumes "w \<noteq> 0" "h \<noteq> 0"
  shows "\<exists>st' outs. runCalls br (resize newFilterPipeline w h)
                      (map edgeCall [x1, x2, x3, x4]) = Inr (st', outs)
           \<and> trace st' = [ComputeSobel 1, ComputeSobel 2, ComputeSobel 4]"
proof -
  let ?st = "resize newFilterPipeline w h"
  have d: "this_w ?st \<noteq> 0" "this_h ?st \<noteq> 0" using fresh_resized(1,2) [OF assms] assms by simp_all
  have u: "[0 + 1 ..< 0 + 1 + length [x1, x2, x3, x4]] = [1, 2, 3, 4::nat]"
    by (simp add: upt_conv_Cons)
  have flt: "filter (\<lambda>fc. fc mod (1 + 1) = 0 \<or> (fc = 0 + 1 \<and> (None::ImageData option) = None))
               [1, 2, 3, 4::nat] = [1, 2, 4]"
    by code_simp
  from edge_run [OF d, of br "[x1, x2, x3, x4]"]
  obtain st' outs where r: "runCalls br ?st (map edgeCall [x1, x2, x3, x4]) = Inr (st', outs)"
    and t: "trace st' = trace ?st @ map ComputeSobel
               (filter (\<lambda>fc. fc mod (skip (edgeCache ?st) + 1) = 0
                          \<or> (fc = frameCounter (edgeCache ?st) + 1 \<and> imageData (edgeCache ?st) = None))
                  [frameCounter (edgeCache ?st) + 1 ..< frameCounter (edgeCache ?st) + 1 + length [x1, x2, x3, x4]])"
    by blast
  have "trace st' = [ComputeSobel 1, ComputeSobel 2, ComputeSobel 4]"
    unfolding t fresh_resized(3,4) [OF assms] edgeCache.simps u flt by simp
  with r show ?thesis by blast
qed

text \<open>
  C3, as the claim has it, fails on frame 1: on a fresh pipeline with \<open>skip = 1\<close> the
  first call has frame counter 1, which is odd, and the edge map is computed all the same
  (no cached frame exists yet).
\<close>

theorem edge_first_frame_counterexample:
  "(case pipeline_apply \<lparr>scaleImage = (\<lambda>s img w h. img), cssDraw = (\<lambda>f img c. c)\<rparr>
          (resize newFilterPipeline 3 3) (mkImage 3 3 (\<lambda>x y. (0, 0, 0, 0)))
          (mkImage 3 3 (\<lambda>x y. (10, 20, 30, 255))) ''edge'' 0 of
      Inl e \<Rightarrow> False
    | Inr (st', out) \<Rightarrow>
        frameCounter (edgeCache st') = 1 \<and> skip (edgeCache st') = 1
        \<and> frameCounter (edgeCache st') mod (skip (edgeCache st') + 1) \<noteq> 0
        \<and> trace st' = [ComputeSobel 1])"
proof -
  let ?st = "resize newFilterPipeline 3 3"
  have nz: "(3::nat) \<noteq> 0" by simp
  have d: "this_w ?st \<noteq> 0" "this_h ?st \<noteq> 0" using fresh_resized(1,2) [OF nz nz] by simp_all
  from edge_step [OF d, of "\<lparr>scaleImage = (\<lambda>s img w h. img), cssDraw = (\<lambda>f img c. c)\<rparr>"
      "mkImage 3 3 (\<lambda>x y. (0, 0, 0, 0))" "mkImage 3 3 (\<lambda>x y. (10, 20, 30, 255))" 0]
  show ?thesis
    unfolding fresh_resized(3,4) [OF nz nz] edgeCache.simps by auto
qed

text \<open>
  C3, amended. With nonzero dimensions, a call of \<open>apply\<close> with the edge key increments
  the frame counter and computes the Sobel edge map exactly when the incremented counter
  is a multiple of \<open>skip + 1\<close> or no cached edge frame exists; otherwise it redraws the
  cached frame and leaves the cache as it is. Over a sequence of such calls the computed
  frames are those whose counter is a multiple of \<open>skip + 1\<close>, and the first one when
  the cache was empty. On a fresh pipeline (\<open>skip = 1\<close>) frames 1, 2, 3, 4 compute on
  frames 1, 2 and 4, and frame 3 redraws the cache.
\<close>

theorem edge_throttle:
  assumes "this_w st \<noteq> 0" "this_h st \<noteq> 0" "w \<noteq> 0" "h \<noteq> 0"
  shows "(\<exists>st' out. pipeline_apply br st offCtx video ''edge'' now = Inr (st', out)
           \<and> frameCounter (edgeCache st') = frameCounter (edgeCache st) + 1
           \<and> (if (frameCounter (edgeCache st) + 1) mod (skip (edgeCache st) + 1) = 0
                  \<or> imageData (edgeCache st) = None
               then \<exists>edged. sobelEdge (getImageData
                                (drawMirrored br offCtx video (this_w st) (this_h st) ''none'')
                                (this_w st) (this_h st)) (this_w st) (this_h st) = Inr edged
                      \<and> imageData (edgeCache st') = Some edged
                      \<and> out = putImageData edged
                                (drawMirrored br offCtx video (this_w st) (this_h st) ''none'')
                      \<and> trace st' = trace st @ [ComputeSobel (frameCounter (edgeCache st) + 1)]
               else \<exists>cached. imageData (edgeCache st) = Some cached
                      \<and> imageData (edgeCache st') = Some cached
                      \<and> out = putImageData cached
                                (drawMirrored br offCtx video (this_w st) (this_h st) ''none'')
                      \<and> trace st' = trace st))
       \<and> (\<exists>st' outs. runCalls br st (map edgeCall xs) = Inr (st', outs)
           \<and> length outs = length xs
           \<and> frameCounter (edgeCache st') = frameCounter (edgeCache st) + length xs
           \<and> skip (edgeCache st') = skip (edgeCache st)
           \<and> trace st' = trace st @ map ComputeSobel
               (filter (\<lambda>fc. fc mod (skip (edgeCache st) + 1) = 0
                          \<or> (fc = frameCounter (edgeCache st) + 1 \<and> imageData (edgeCache st) = None))
                  [frameCounter (edgeCache st) + 1 ..< frameCounter (edgeCache st) + 1 + length xs]))
       \<and> (\<exists>st' outs. runCalls br (resize newFilterPipeline w h)
                        (map edgeCall [x1, x2, x3, x4]) = Inr (st', outs)
           \<and> trace st' = [ComputeSobel 1, ComputeSobel 2, ComputeSobel 4])"
proof (intro conjI)
  show "\<exists>st' out. pipeline_apply br st offCtx video ''edge'' now = Inr (st', out)
           \<and> frameCounter (edgeCache st') = frameCounter (edgeCache st) + 1
           \<and> (if (frameCounter (edgeCache st) + 1) mod (skip (edgeCache st) + 1) = 0
                  \<or> imageData (edgeCache st) = None
               then \<exists>edged. sobelEdge (getImageData
                                (drawMirrored br offCtx video (this_w st) (this_h st) ''none'')
                                (this_w st) (this_h st)) (this_w st) (this_h st) = Inr edged
                      \<and> imageData (edgeCache st') = Some edged
                      \<and> out = putImageData edged
                                (drawMirrored br offCtx video (this_w st) (this_h st) ''none'')
                      \<and> trace st' = trace st @ [ComputeSobel (frameCounter (edgeCache st) + 1)]
               else \<exists>cached. imageData (edgeCache st) = Some cached
                      \<and> imageData (edgeCache st') = Some cached
                      \<and> out = putImageData cached
                                (drawMirrored br offCtx video (this_w st) (this_h st) ''none'')
                      \<and> trace st' = trace st)"
  proof (cases "(frameCounter (edgeCache st) + 1) mod (skip (edgeCache st) + 1) = 0
              \<or> imageData (edgeCache st) = None")
    case True
    from renderEdge_compute [OF assms(1,2) True, of br offCtx video now]
    show ?thesis unfolding apply_edge using True by auto
  next
    case False
    then obtain cached where c: "imageData (edgeCache st) = Some cached" by auto
    from False have m: "(frameCounter (edgeCache st) + 1) mod (skip (edgeCache st) + 1) \<noteq> 0"
      by simp
    show ?thesis
      unfolding apply_edge renderEdge_reuse [OF assms(1,2) m c] using False c by simp
  qed
next
  from edge_run [OF assms(1,2), of br xs]
  show "\<exists>st' outs. runCalls br st (map edgeCall xs) = Inr (st', outs)
           \<and> length outs = length xs
           \<and> frameCounter (edgeCache st') = frameCounter (edgeCache st) + length xs
           \<and> skip (edgeCache st') = skip (edgeCache st)
           \<and> trace st' = trace st @ map ComputeSobel
               (filter (\<lambda>fc. fc mod (skip (edgeCache st) + 1) = 0
                          \<or> (fc = frameCounter (edgeCache st) + 1 \<and> imageData (edgeCache st) = None))
                  [frameCounter (edgeCache st) + 1 ..< frameCounter (edgeCache st) + 1 + length xs])"
    by blast
next
  show "\<exists>st' outs. runCalls br (resize newFilterPipeline w h)
                        (map edgeCall [x1, x2, x3, x4]) = Inr (st', outs)
           \<and> trace st' = [ComputeSobel 1, ComputeSobel 2, ComputeSobel 4]"
    by (rule fresh_four_frames [OF assms(3,4)])
qed

text \<open>
  Four frames on a fresh pipeline of 3 by 3 pixels.
\<close>

theorem edge_throttle_witness:
  "this_w (resize newFilterPipeline 3 3) \<noteq> 0 \<and> this_h (resize newFilterPipeline 3 3) \<noteq> 0
   \<and> (3::nat) \<noteq> 0
   \<and> (\<exists>st' outs. runCalls \<lparr>scaleImage = (\<lambda>s img w h. img), cssDraw = (\<lambda>f img c. c)\<rparr>
          (resize newFilterPipeline 3 3)
          (map edgeCall
             [(mkImage 3 3 (\<lambda>x y. (0, 0, 0, 0)), mkImage 3 3 (\<lambda>x y. (10, 20, 30, 255)), 0),
              (mkImage 3 3 (\<lambda>x y. (0, 0, 0, 0)), mkImage 3 3 (\<lambda>x y. (10, 20, 30, 255)), 16),
              (mkImage 3 3 (\<lambda>x y. (0, 0, 0, 0)), mkImage 3 3 (\<lambda>x y. (10, 20, 30, 255)), 33),
              (mkImage 3 3 (\<lambda>x y. (0, 0, 0, 0)), mkImage 3 3 (\<lambda>x y. (10, 20, 30, 255)), 50)])
        = Inr (st', outs)
        \<and> trace st' = [ComputeSobel 1, ComputeSobel 2, ComputeSobel 4])"
proof -
  have nz: "(3::nat) \<noteq> 0" by simp
  have d: "this_w (resize newFilterPipeline 3 3) \<noteq> 0" "this_h (resize newFilterPipeline 3 3) \<noteq> 0"
    using fresh_resized(1,2) [OF nz nz] by simp_all
  from edge_throttle [OF d nz nz, THEN conjunct2, THEN conjunct2] d
  show ?thesis by simp
qed

section \<open>Properties of the LUT cache\<close>

lemma buildKeys_append: "buildKeys (es @ fs) = buildKeys es @ buildKeys fs"
  by (induction es rule: buildKeys.induct) simp_all

lemma getOrCreateLUT_hit:
  "lutCache st (key meta) = Some l \<Longrightarrow> getOrCreateLUT st meta = Inr (l, st)"
  by (simp add: getOrCreateLUT_def)

lemma getOrCreateLUT_miss:
  "lutCache st (key meta) = None \<Longrightarrow> makeLUT meta = Some mk \<Longrightarrow>
   getOrCreateLUT st meta
   = Inr (mk (), st\<lparr>lutCache := (lutCache st)(key meta \<mapsto> mk ()),
                     trace := trace st @ [BuildLUT (key meta)]\<rparr>)"
  by (simp add: getOrCreateLUT_def Let_def)

lemma find_in_set: "find P xs = Some x \<Longrightarrow> x \<in> set xs"
  by (induction xs) (auto split: if_splits)

lemma find_holds: "find P xs = Some x \<Longrightarrow> P x"
  by (induction xs) (auto split: if_splits)

lemma lut_entries_have_makeLUT:
  "f \<in> set FilterList \<Longrightarrow> kind f = ''lut'' \<Longrightarrow> makeLUT f \<noteq> None"
  unfolding FilterList_def by fastforce

text \<open>The keys of \<open>FilterList\<close> are distinct: looking up the key of an entry finds that entry.\<close>

lemma find_distinct_key:
  "distinct (map g xs) \<Longrightarrow> x \<in> set xs \<Longrightarrow> find (\<lambda>f. g f = g x) xs = Some x"
  by (induction xs) force+

lemma FilterList_keys_distinct: "distinct (map key FilterList)"
  by (simp add: FilterList_def)

lemma find_entry:
  assumes "meta \<in> set FilterList"
  shows "find (\<lambda>f. key f = key meta) FilterList = Some meta"
  using find_distinct_key [OF FilterList_keys_distinct assms] .

lemma getOrCreateLUT_step:
  assumes f: "find (\<lambda>f. key f = key meta) FilterList = Some meta"
    and m: "makeLUT meta \<noteq> None"
  shows "\<exists>l st'. getOrCreateLUT st meta = Inr (l, st')
           \<and> lutCache st \<subseteq>\<^sub>m lutCache st' \<and> (lutInv st \<longrightarrow> lutInv st')
           \<and> this_w st' = this_w st \<and> this_h st' = this_h st"
proof (cases "lutCache st (key meta)")
  case None
  obtain mk where mk: "makeLUT meta = Some mk" using m by auto
  let ?st' = "st\<lparr>lutCache := (lutCache st)(key meta \<mapsto> mk ()),
                     trace := trace st @ [BuildLUT (key meta)]\<rparr>"
  have le: "lutCache st \<subseteq>\<^sub>m (lutCache st)(key meta \<mapsto> mk ())"
    using None by (auto simp: map_le_def)
  have nd: "key meta \<notin> dom (lutCache st)" using None by (simp add: domIff)
  have inv: "lutInv ?st'" if i: "lutInv st"
  proof -
    have a: "distinct (buildKeys (trace ?st'))"
      using i nd by (auto simp: lutInv_def buildKeys_append)
    have b: "set (buildKeys (trace ?st')) = dom (lutCache ?st')"
      using i by (auto simp: lutInv_def buildKeys_append)
    have c: "\<exists>meta' mk'. find (\<lambda>f. key f = k) FilterList = Some meta'
               \<and> makeLUT meta' = Some mk' \<and> l = mk' ()"
      if "lutCache ?st' k = Some l" for k l
    proof (cases "k = key meta")
      case True
      then have "l = mk ()" using that by simp
      then show ?thesis using f mk True by blast
    next
      case False
      then have "lutCache st k = Some l" using that by simp
      then show ?thesis using i unfolding lutInv_def by blast
    qed
    show ?thesis unfolding lutInv_def using a b c by blast
  qed
  show ?thesis
    unfolding getOrCreateLUT_miss [OF None mk] using le inv by simp
next
  case (Some l)
  show ?thesis unfolding getOrCreateLUT_hit [OF Some] by simp
qed

lemma renderLUT_step:
  assumes "find (\<lambda>f. key f = key meta) FilterList = Some meta" "makeLUT meta \<noteq> None"
  shows "\<exists>st' out. renderLUT br st offCtx video meta = Inr (st', out)
           \<and> lutCache st \<subseteq>\<^sub>m lutCache st' \<and> (lutInv st \<longrightarrow> lutInv st')"
proof (cases "this_w st = 0 \<or> this_h st = 0")
  case True
  then show ?thesis by (auto simp: renderLUT_def Let_def)
next
  case False
  from getOrCreateLUT_step [OF assms, of st]
  obtain l st' where g: "getOrCreateLUT st meta = Inr (l, st')"
    and p: "lutCache st \<subseteq>\<^sub>m lutCache st'" "lutInv st \<longrightarrow> lutInv st'"
    by blast
  show ?thesis
    using False g p by (simp add: renderLUT_def Let_def)
qed

lemma renderPixelate_step:
  "lutCache (fst (renderPixelate br st offCtx video)) = lutCache st
   \<and> trace (fst (renderPixelate br st offCtx video)) = trace st"
  by (simp add: renderPixelate_def Let_def)

lemma lutInv_cong:
  "lutCache st' = lutCache st \<Longrightarrow> buildKeys (trace st') = buildKeys (trace st) \<Longrightarrow>
   lutInv st' = lutInv st"
  by (simp add: lutInv_def)

lemma renderEdge_step:
  "\<exists>st' out. renderEdge br st offCtx video now = Inr (st', out)
     \<and> lutCache st' = lutCache st \<and> buildKeys (trace st') = buildKeys (trace st)"
proof (cases "this_w st = 0 \<or> this_h st = 0")
  case True
  then show ?thesis by (auto simp: renderEdge_def Let_def)
next
  case False
  then have d: "this_w st \<noteq> 0" "this_h st \<noteq> 0" by simp_all
  from edge_step [OF d, of br offCtx video now]
  obtain st' out where r: "renderEdge br st offCtx video now = Inr (st', out)"
    and c: "lutCache st' = lutCache st"
    and t: "trace st' = trace st @
               (if (frameCounter (edgeCache st) + 1) mod (skip (edgeCache st) + 1) = 0
                   \<or> imageData (edgeCache st) = None
                then [ComputeSobel (frameCounter (edgeCache st) + 1)] else [])"
    unfolding apply_edge by blast
  have "buildKeys (trace st') = buildKeys (trace st)"
    unfolding t by (simp add: buildKeys_append)
  with r c show ?thesis by blast
qed

text \<open>Every call of \<open>apply\<close> returns, keeps what the cache holds and keeps the invariant.\<close>

lemma apply_step:
  "\<exists>st' out. pipeline_apply br st offCtx video filterKey now = Inr (st', out)
     \<and> lutCache st \<subseteq>\<^sub>m lutCache st' \<and> (lutInv st \<longrightarrow> lutInv st')"
proof -
  let ?goal = "\<lambda>res. \<exists>st' out. res = Inr (st', out)
     \<and> lutCache st \<subseteq>\<^sub>m lutCache st' \<and> (lutInv st \<longrightarrow> lutInv st')"
  have same: "?goal (Inr (st, c))" for c by simp
  have pix: "?goal (Inr (renderPixelate br st offCtx video))"
  proof -
    obtain st1 out1 where p: "renderPixelate br st offCtx video = (st1, out1)"
      by (cases "renderPixelate br st offCtx video")
    have "lutCache st1 = lutCache st" "buildKeys (trace st1) = buildKeys (trace st)"
      using renderPixelate_step [of br st offCtx video] by (simp_all add: p)
    then show ?thesis using lutInv_cong [of st1 st] by (simp add: p)
  qed
  have edge: "?goal (renderEdge br st offCtx video now)"
  proof -
    from renderEdge_step [of br st offCtx video now]
    obtain st1 out1 where r: "renderEdge br st offCtx video now = Inr (st1, out1)"
      and c: "lutCache st1 = lutCache st" "buildKeys (trace st1) = buildKeys (trace st)"
      by blast
    show ?thesis using lutInv_cong [OF c] c(1) by (simp add: r)
  qed
  have special: "?goal (if filterKey = ''pixelate'' then Inr (renderPixelate br st offCtx video)
             else if filterKey = ''edge'' then renderEdge br st offCtx video now
             else Inr (st, drawMirrored br offCtx video (this_w st) (this_h st) ''none''))"
  proof -
    consider (p) "filterKey = ''pixelate''"
      | (e) "filterKey \<noteq> ''pixelate''" "filterKey = ''edge''"
      | (n) "filterKey \<noteq> ''pixelate''" "filterKey \<noteq> ''edge''"
      by blast
    then show ?thesis
    proof cases
      case p
      then show ?thesis using pix by simp
    next
      case e
      then show ?thesis using edge by simp
    next
      case n
      then show ?thesis using same by simp
    qed
  qed
  show ?thesis
  proof (cases "this_w st = 0 \<or> this_h st = 0")
    case True
    then show ?thesis using same by (simp add: pipeline_apply_def Let_def)
  next
    case dims: False
    show ?thesis
    proof (cases "find (\<lambda>f. key f = filterKey) FilterList")
      case None
      then show ?thesis using dims special by (simp add: pipeline_apply_def Let_def)
    next
      case (Some meta)
      have km: "key meta = filterKey" using find_holds [OF Some] .
      have fm: "find (\<lambda>f. key f = key meta) FilterList = Some meta" using Some km by simp
      have lut: "?goal (renderLUT br st offCtx video meta)" if "kind meta = ''lut''"
        using renderLUT_step [OF fm lut_entries_have_makeLUT [OF find_in_set [OF Some] that],
            of br st offCtx video] .
      consider "kind meta = ''css'' \<or> kind meta = ''simple''"
        | "\<not> (kind meta = ''css'' \<or> kind meta = ''simple'')" "kind meta = ''lut''"
        | "\<not> (kind meta = ''css'' \<or> kind meta = ''simple'')" "kind meta \<noteq> ''lut''"
          "kind meta = ''pixelate''"
        | "\<not> (kind meta = ''css'' \<or> kind meta = ''simple'')" "kind meta \<noteq> ''lut''"
          "kind meta \<noteq> ''pixelate''" "kind meta = ''edge''"
        | "\<not> (kind meta = ''css'' \<or> kind meta = ''simple'')" "kind meta \<noteq> ''lut''"
          "kind meta \<noteq> ''pixelate''" "kind meta \<noteq> ''edge''"
        by blast
      then show ?thesis
      proof cases
        case 1
        then show ?thesis using dims Some same by (simp add: pipeline_apply_def Let_def)
      next
        case 2
        then show ?thesis using dims Some lut by (simp add: pipeline_apply_def Let_def)
      next
        case 3
        then show ?thesis using dims Some pix by (simp add: pipeline_apply_def Let_def)
      next
        case 4
        then show ?thesis using dims Some edge by (simp add: pipeline_apply_def Let_def)
      next
        case 5
        then show ?thesis using dims Some special by (simp add: pipeline_apply_def Let_def)
      qed
    qed
  qed
qed

lemma resize_keeps: "lutCache (resize st w h) = lutCache st" "trace (resize st w h) = trace st"
  by (simp_all add: resize_def Let_def)

lemma run_step:
  assumes "lutInv st"
  shows "\<exists>st' outs. runCalls br st cs = Inr (st', outs)
           \<and> lutCache st \<subseteq>\<^sub>m lutCache st' \<and> lutInv st'"
  using assms
proof (induction cs arbitrary: st)
  case Nil
  then show ?case by simp
next
  case (Cons c cs)
  show ?case
  proof (cases c)
    case (Apply offCtx video filterKey now)
    from apply_step [of br st offCtx video filterKey now] Cons.prems
    obtain st1 out where a: "pipeline_apply br st offCtx video filterKey now = Inr (st1, out)"
      and le1: "lutCache st \<subseteq>\<^sub>m lutCache st1" and inv1: "lutInv st1"
      by blast
    from Cons.IH [OF inv1]
    obtain st2 outs where r: "runCalls br st1 cs = Inr (st2, outs)"
      and le2: "lutCache st1 \<subseteq>\<^sub>m lutCache st2" and inv2: "lutInv st2"
      by blast
    have "runCalls br st (c # cs) = Inr (st2, out # outs)"
      by (simp add: Apply a r)
    moreover have "lutCache st \<subseteq>\<^sub>m lutCache st2" using le1 le2 by (rule map_le_trans)
    ultimately show ?thesis using inv2 by blast
  next
    case (Resize w h)
    have "lutInv (resize st w h)"
      using Cons.prems lutInv_cong [of "resize st w h" st] by (simp add: resize_keeps)
    from Cons.IH [OF this]
    obtain st2 outs where r: "runCalls br (resize st w h) cs = Inr (st2, outs)"
      and le2: "lutCache (resize st w h) \<subseteq>\<^sub>m lutCache st2" and inv2: "lutInv st2"
      by blast
    then show ?thesis by (auto simp: Resize resize_keeps)
  qed
qed

lemma runCalls_append:
  "runCalls br st (cs1 @ cs2) =
     (case runCalls br st cs1 of
        Inl e \<Rightarrow> Inl e
      | Inr (st1, outs1) \<Rightarrow>
          (case runCalls br st1 cs2 of
             Inl e \<Rightarrow> Inl e
           | Inr (st2, outs2) \<Rightarrow> Inr (st2, outs1 @ outs2)))"
proof (induction cs1 arbitrary: st)
  case Nil
  then show ?case by (simp split: sum.splits prod.splits)
next
  case (Cons c cs1)
  then show ?case by (cases c) (simp_all split: sum.splits prod.splits)
qed

lemma fresh_lutInv: "lutInv newFilterPipeline"
  by (simp add: lutInv_def newFilterPipeline_def)

text \<open>
  With nonzero dimensions, \<open>apply\<close> with the key of a LUT descriptor of \<open>FilterList\<close> is
  \<open>renderLUT\<close> on that descriptor: on a key not cached it builds the table, stores it and
  grades the frame with it; on a cached key it leaves the pipeline as it is and grades
  the frame with the cached table.
\<close>

lemma apply_lut_link:
  assumes m: "meta \<in> set FilterList" "kind meta = ''lut''"
    and d: "this_w st \<noteq> 0" "this_h st \<noteq> 0"
    and mk: "makeLUT meta = Some mk"
  shows "pipeline_apply br st offCtx video (key meta) now =
     (let c1 = drawMirrored br offCtx video (this_w st) (this_h st) ''none'';
          frame = getImageData c1 (this_w st) (this_h st);
          s = (case strength meta of Some v \<Rightarrow> v | None \<Rightarrow> 1.0);
          graded = (\<lambda>lut. putImageData (frame\<lparr>data := gradePixels lut s (data frame)\<rparr>) c1)
      in case lutCache st (key meta) of
           None \<Rightarrow> Inr (st\<lparr>lutCache := (lutCache st)(key meta \<mapsto> mk ()),
                           trace := trace st @ [BuildLUT (key meta)]\<rparr>, graded (mk ()))
         | Some l \<Rightarrow> Inr (st, graded l))"
proof -
  have a: "pipeline_apply br st offCtx video (key meta) now = renderLUT br st offCtx video meta"
    using d m(2) by (simp add: pipeline_apply_def Let_def find_entry [OF m(1)])
  show ?thesis
  proof (cases "lutCache st (key meta)")
    case None
    show ?thesis
      unfolding a using d by (simp add: renderLUT_def Let_def getOrCreateLUT_miss [OF None mk] None)
  next
    case (Some l)
    show ?thesis
      unfolding a using d by (simp add: renderLUT_def Let_def getOrCreateLUT_hit [OF Some] Some)
  qed
qed

lemma runCalls_Apply_Inr:
  "pipeline_apply br st offCtx video filterKey now = Inr (st1, out) \<Longrightarrow>
   runCalls br st1 cs = Inr (st2, outs) \<Longrightarrow>
   runCalls br st (Apply offCtx video filterKey now # cs) = Inr (st2, out # outs)"
  by simp

lemma distinct_count_one: "distinct xs \<Longrightarrow> x \<in> set xs \<Longrightarrow> count_list xs x = 1"
  by (induction xs) (auto simp: count_list_0_iff)

lemma run_invoked:
  assumes inv: "lutInv st1" and d: "this_w st1 \<noteq> 0" "this_h st1 \<noteq> 0"
    and m: "meta \<in> set FilterList" "kind meta = ''lut''" and mk: "makeLUT meta = Some mk"
  shows "\<exists>st' outs. runCalls br st1 (Apply offCtx video (key meta) now # cs2) = Inr (st', outs)
           \<and> lutCache st' (key meta) = Some (mk ()) \<and> lutInv st'"
proof -
  from apply_step [of br st1 offCtx video "key meta" now] inv
  obtain st2 out where a: "pipeline_apply br st1 offCtx video (key meta) now = Inr (st2, out)"
    and inv2: "lutInv st2"
    by blast
  have c2: "lutCache st2 (key meta) = Some (mk ())"
  proof (cases "lutCache st1 (key meta)")
    case None
    then show ?thesis
      using a unfolding apply_lut_link [OF m d mk] by (auto simp: Let_def)
  next
    case (Some l)
    from inv Some obtain meta' mk' where
      f: "find (\<lambda>f. key f = key meta) FilterList = Some meta'"
      and k: "makeLUT meta' = Some mk'" "l = mk' ()"
      unfolding lutInv_def by blast
    have "meta' = meta" using f find_entry [OF m(1)] by simp
    then have "l = mk ()" using k mk by simp
    then show ?thesis
      using a Some unfolding apply_lut_link [OF m d mk] by (auto simp: Let_def)
  qed
  from run_step [OF inv2, of br cs2]
  obtain st' outs where r: "runCalls br st2 cs2 = Inr (st', outs)"
    and le: "lutCache st2 \<subseteq>\<^sub>m lutCache st'" and inv': "lutInv st'"
    by blast
  have "lutCache st' (key meta) = Some (mk ())"
    using le c2 by (metis domI map_le_def)
  moreover have "runCalls br st1 (Apply offCtx video (key meta) now # cs2) = Inr (st', out # outs)"
    by (simp add: a r)
  ultimately show ?thesis using inv' by blast
qed

text \<open>
  C5. Every sequence of \<open>resize\<close> and \<open>apply\<close> calls on a fresh pipeline returns, and in
  the pipeline it leaves no key has had its table built more than once, the keys built
  are the keys cached, and what the cache held after any prefix of the calls it still
  holds at the end; a key of a LUT descriptor that some call of the sequence applied with
  nonzero dimensions has been built exactly once, and the cache holds for it the table
  that the descriptor's \<open>makeLUT\<close> returns. With nonzero dimensions, \<open>apply\<close> with the key of
  a LUT descriptor of \<open>FilterList\<close> builds the table, stores it and grades the frame with
  it when the key is not cached, and when the key is cached leaves the pipeline (cache
  and trace) as it is and grades the frame with the cached table. \<open>getOrCreateLUT\<close> on a
  cached key returns the cached table and leaves the pipeline as it is; on a key not
  cached it calls \<open>makeLUT\<close> and stores the result.
\<close>

theorem lut_built_once:
  "(\<exists>st' outs. runCalls br newFilterPipeline cs = Inr (st', outs)
      \<and> distinct (buildKeys (trace st'))
      \<and> set (buildKeys (trace st')) = dom (lutCache st')
      \<and> (\<forall>cs1 cs2 st1 outs1.
            cs = cs1 @ cs2 \<and> runCalls br newFilterPipeline cs1 = Inr (st1, outs1)
            \<longrightarrow> lutCache st1 \<subseteq>\<^sub>m lutCache st')
      \<and> (\<forall>cs1 cs2 st1 outs1 offCtx video meta now.
            cs = cs1 @ Apply offCtx video (key meta) now # cs2
            \<and> runCalls br newFilterPipeline cs1 = Inr (st1, outs1)
            \<and> this_w st1 \<noteq> 0 \<and> this_h st1 \<noteq> 0
            \<and> meta \<in> set FilterList \<and> kind meta = ''lut''
            \<longrightarrow> (\<exists>mk. makeLUT meta = Some mk \<and> lutCache st' (key meta) = Some (mk ()))
                \<and> count_list (buildKeys (trace st')) (key meta) = 1))
   \<and> (\<forall>st offCtx video meta now.
         this_w st \<noteq> 0 \<and> this_h st \<noteq> 0 \<and> meta \<in> set FilterList \<and> kind meta = ''lut''
         \<longrightarrow> (\<exists>mk. makeLUT meta = Some mk
               \<and> pipeline_apply br st offCtx video (key meta) now =
                  (let c1 = drawMirrored br offCtx video (this_w st) (this_h st) ''none'';
                       frame = getImageData c1 (this_w st) (this_h st);
                       s = (case strength meta of Some v \<Rightarrow> v | None \<Rightarrow> 1.0);
                       graded = (\<lambda>lut. putImageData
                                   (frame\<lparr>data := gradePixels lut s (data frame)\<rparr>) c1)
                   in case lutCache st (key meta) of
                        None \<Rightarrow> Inr (st\<lparr>lutCache := (lutCache st)(key meta \<mapsto> mk ()),
                                        trace := trace st @ [BuildLUT (key meta)]\<rparr>,
                                     graded (mk ()))
                      | Some l \<Rightarrow> Inr (st, graded l))))
   \<and> (\<forall>st meta l. lutCache st (key meta) = Some l \<longrightarrow> getOrCreateLUT st meta = Inr (l, st))
   \<and> (\<forall>st meta mk. lutCache st (key meta) = None \<and> makeLUT meta = Some mk \<longrightarrow>
         getOrCreateLUT st meta
         = Inr (mk (), st\<lparr>lutCache := (lutCache st)(key meta \<mapsto> mk ()),
                           trace := trace st @ [BuildLUT (key meta)]\<rparr>))"
proof (intro conjI)
  from run_step [OF fresh_lutInv, of br cs]
  obtain st' outs where r: "runCalls br newFilterPipeline cs = Inr (st', outs)"
    and inv: "lutInv st'"
    by blast
  have dist: "distinct (buildKeys (trace st'))"
    and dom: "set (buildKeys (trace st')) = dom (lutCache st')"
    using inv unfolding lutInv_def by blast+
  have pre: "lutCache st1 \<subseteq>\<^sub>m lutCache st'"
    if s: "cs = cs1 @ cs2" and r1: "runCalls br newFilterPipeline cs1 = Inr (st1, outs1)"
    for cs1 cs2 st1 outs1
  proof -
    from run_step [OF fresh_lutInv, of br cs1] r1 have inv1: "lutInv st1" by simp
    from run_step [OF inv1, of br cs2]
    obtain st2 outs2 where r2: "runCalls br st1 cs2 = Inr (st2, outs2)"
      and le: "lutCache st1 \<subseteq>\<^sub>m lutCache st2"
      by blast
    have "runCalls br newFilterPipeline cs = Inr (st2, outs1 @ outs2)"
      unfolding s runCalls_append by (simp add: r1 r2)
    with r have "st2 = st'" by simp
    with le show ?thesis by simp
  qed
  have inv: "(\<exists>mk. makeLUT meta = Some mk \<and> lutCache st' (key meta) = Some (mk ()))
                \<and> count_list (buildKeys (trace st')) (key meta) = 1"
    if s: "cs = cs1 @ Apply offCtx video (key meta) now # cs2"
      and r1: "runCalls br newFilterPipeline cs1 = Inr (st1, outs1)"
      and d: "this_w st1 \<noteq> 0" "this_h st1 \<noteq> 0"
      and m: "meta \<in> set FilterList" "kind meta = ''lut''"
    for cs1 cs2 st1 outs1 offCtx video meta now
  proof -
    obtain mk where mk: "makeLUT meta = Some mk"
      using lut_entries_have_makeLUT [OF m] by auto
    from run_step [OF fresh_lutInv, of br cs1] r1 have inv1: "lutInv st1" by simp
    from run_invoked [OF inv1 d m mk, of br offCtx video now cs2]
    obtain st2 outs2 where
      r2: "runCalls br st1 (Apply offCtx video (key meta) now # cs2) = Inr (st2, outs2)"
      and c: "lutCache st2 (key meta) = Some (mk ())"
      by blast
    have "runCalls br newFilterPipeline cs = Inr (st2, outs1 @ outs2)"
      unfolding s runCalls_append r1 sum.case prod.case r2 by simp
    with r have e: "st2 = st'" by simp
    have c': "lutCache st' (key meta) = Some (mk ())" using c e by simp
    then have "key meta \<in> set (buildKeys (trace st'))" unfolding dom by (simp add: domI)
    then have "count_list (buildKeys (trace st')) (key meta) = 1"
      using dist by (intro distinct_count_one)
    with mk c' show ?thesis by blast
  qed
  show "\<exists>st' outs. runCalls br newFilterPipeline cs = Inr (st', outs)
      \<and> distinct (buildKeys (trace st'))
      \<and> set (buildKeys (trace st')) = dom (lutCache st')
      \<and> (\<forall>cs1 cs2 st1 outs1.
            cs = cs1 @ cs2 \<and> runCalls br newFilterPipeline cs1 = Inr (st1, outs1)
            \<longrightarrow> lutCache st1 \<subseteq>\<^sub>m lutCache st')
      \<and> (\<forall>cs1 cs2 st1 outs1 offCtx video meta now.
            cs = cs1 @ Apply offCtx video (key meta) now # cs2
            \<and> runCalls br newFilterPipeline cs1 = Inr (st1, outs1)
            \<and> this_w st1 \<noteq> 0 \<and> this_h st1 \<noteq> 0
            \<and> meta \<in> set FilterList \<and> kind meta = ''lut''
            \<longrightarrow> (\<exists>mk. makeLUT meta = Some mk \<and> lutCache st' (key meta) = Some (mk ()))
                \<and> count_list (buildKeys (trace st')) (key meta) = 1)"
  proof -
    have P4: "\<forall>cs1 cs2 st1 outs1.
            cs = cs1 @ cs2 \<and> runCalls br newFilterPipeline cs1 = Inr (st1, outs1)
            \<longrightarrow> lutCache st1 \<subseteq>\<^sub>m lutCache st'"
      using pre by blast
    have P5: "\<forall>cs1 cs2 st1 outs1 offCtx video meta now.
            cs = cs1 @ Apply offCtx video (key meta) now # cs2
            \<and> runCalls br newFilterPipeline cs1 = Inr (st1, outs1)
            \<and> this_w st1 \<noteq> 0 \<and> this_h st1 \<noteq> 0
            \<and> meta \<in> set FilterList \<and> kind meta = ''lut''
            \<longrightarrow> (\<exists>mk. makeLUT meta = Some mk \<and> lutCache st' (key meta) = Some (mk ()))
                \<and> count_list (buildKeys (trace st')) (key meta) = 1"
    proof (intro allI impI)
      fix cs1 cs2 :: "pcall list" and st1 :: pipeline and outs1 :: "ImageData list"
        and offCtx video :: ImageData and meta :: filterMeta and now :: real
      assume h: "cs = cs1 @ Apply offCtx video (key meta) now # cs2
            \<and> runCalls br newFilterPipeline cs1 = Inr (st1, outs1)
            \<and> this_w st1 \<noteq> 0 \<and> this_h st1 \<noteq> 0
            \<and> meta \<in> set FilterList \<and> kind meta = ''lut''"
      show "(\<exists>mk. makeLUT meta = Some mk \<and> lutCache st' (key meta) = Some (mk ()))
                \<and> count_list (buildKeys (trace st')) (key meta) = 1"
        by (rule inv [of cs1 offCtx video meta now cs2 st1 outs1]) (use h in simp_all)
    qed
    show ?thesis
      by (intro exI [of _ st'] exI [of _ outs] conjI r dist dom P4 P5)
  qed
next
  show "\<forall>st offCtx video meta now.
         this_w st \<noteq> 0 \<and> this_h st \<noteq> 0 \<and> meta \<in> set FilterList \<and> kind meta = ''lut''
         \<longrightarrow> (\<exists>mk. makeLUT meta = Some mk
               \<and> pipeline_apply br st offCtx video (key meta) now =
                  (let c1 = drawMirrored br offCtx video (this_w st) (this_h st) ''none'';
                       frame = getImageData c1 (this_w st) (this_h st);
                       s = (case strength meta of Some v \<Rightarrow> v | None \<Rightarrow> 1.0);
                       graded = (\<lambda>lut. putImageData
                                   (frame\<lparr>data := gradePixels lut s (data frame)\<rparr>) c1)
                   in case lutCache st (key meta) of
                        None \<Rightarrow> Inr (st\<lparr>lutCache := (lutCache st)(key meta \<mapsto> mk ()),
                                        trace := trace st @ [BuildLUT (key meta)]\<rparr>,
                                     graded (mk ()))
                      | Some l \<Rightarrow> Inr (st, graded l)))"
  proof (intro allI impI)
    fix st :: pipeline and offCtx video :: ImageData and meta :: filterMeta and now :: real
    assume h: "this_w st \<noteq> 0 \<and> this_h st \<noteq> 0 \<and> meta \<in> set FilterList \<and> kind meta = ''lut''"
    then obtain mk where mk: "makeLUT meta = Some mk"
      using lut_entries_have_makeLUT [of meta] by auto
    from h have m: "meta \<in> set FilterList" "kind meta = ''lut''"
      and d: "this_w st \<noteq> 0" "this_h st \<noteq> 0" by simp_all
    show "\<exists>mk. makeLUT meta = Some mk
               \<and> pipeline_apply br st offCtx video (key meta) now =
                  (let c1 = drawMirrored br offCtx video (this_w st) (this_h st) ''none'';
                       frame = getImageData c1 (this_w st) (this_h st);
                       s = (case strength meta of Some v \<Rightarrow> v | None \<Rightarrow> 1.0);
                       graded = (\<lambda>lut. putImageData
                                   (frame\<lparr>data := gradePixels lut s (data frame)\<rparr>) c1)
                   in case lutCache st (key meta) of
                        None \<Rightarrow> Inr (st\<lparr>lutCache := (lutCache st)(key meta \<mapsto> mk ()),
                                        trace := trace st @ [BuildLUT (key meta)]\<rparr>,
                                     graded (mk ()))
                      | Some l \<Rightarrow> Inr (st, graded l))"
      using mk apply_lut_link [OF m d mk, of br offCtx video now] by blast
  qed
next
  show "\<forall>st meta l. lutCache st (key meta) = Some l \<longrightarrow> getOrCreateLUT st meta = Inr (l, st)"
    by (simp add: getOrCreateLUT_hit)
next
  show "\<forall>st meta mk. lutCache st (key meta) = None \<and> makeLUT meta = Some mk \<longrightarrow>
         getOrCreateLUT st meta
         = Inr (mk (), st\<lparr>lutCache := (lutCache st)(key meta \<mapsto> mk ()),
                           trace := trace st @ [BuildLUT (key meta)]\<rparr>)"
    by (simp add: getOrCreateLUT_miss)
qed

text \<open>
  Three frames on a fresh pipeline, with the keys \<open>wkw_neon\<close>, \<open>wes_pastel\<close> and
  \<open>wkw_neon\<close> again: each table is built once, and the third frame is graded with the
  cached table of the first.
\<close>

theorem lut_built_once_witness:
  "\<exists>st' outs.
     runCalls \<lparr>scaleImage = (\<lambda>s img w h. img), cssDraw = (\<lambda>f img c. c)\<rparr> newFilterPipeline
       [Resize 2 2,
        Apply (mkImage 2 2 (\<lambda>x y. (0, 0, 0, 0))) (mkImage 2 2 (\<lambda>x y. (10, 20, 30, 255)))
          ''wkw_neon'' 0,
        Apply (mkImage 2 2 (\<lambda>x y. (0, 0, 0, 0))) (mkImage 2 2 (\<lambda>x y. (10, 20, 30, 255)))
          ''wes_pastel'' 16,
        Apply (mkImage 2 2 (\<lambda>x y. (0, 0, 0, 0))) (mkImage 2 2 (\<lambda>x y. (10, 20, 30, 255)))
          ''wkw_neon'' 33]
     = Inr (st', outs)
     \<and> trace st' = [BuildLUT ''wkw_neon'', BuildLUT ''wes_pastel'']
     \<and> lutCache st' ''wkw_neon'' = Some (makeLUT_WKW_Neon ())
     \<and> lutCache st' ''wes_pastel'' = Some (makeLUT_WA_Pastel ())
     \<and> count_list (buildKeys (trace st')) ''wkw_neon'' = 1
     \<and> length outs = 3
     \<and> outs ! 2 =
         (let c1 = drawMirrored \<lparr>scaleImage = (\<lambda>s img w h. img), cssDraw = (\<lambda>f img c. c)\<rparr>
                     (mkImage 2 2 (\<lambda>x y. (0, 0, 0, 0)))
                     (mkImage 2 2 (\<lambda>x y. (10, 20, 30, 255))) 2 2 ''none'';
              frame = getImageData c1 2 2
          in putImageData
               (frame\<lparr>data := gradePixels (makeLUT_WKW_Neon ()) 1 (data frame)\<rparr>) c1)"
proof -
  let ?br = "\<lparr>scaleImage = (\<lambda>s img w h. img), cssDraw = (\<lambda>f img c. c)\<rparr>"
  let ?ctx = "mkImage 2 2 (\<lambda>x y. (0, 0, 0, 0))"
  let ?video = "mkImage 2 2 (\<lambda>x y. (10, 20, 30, 255))"
  let ?neon = "\<lparr>key = ''wkw_neon'', kind = ''lut'', cssValue = None,
           makeLUT = Some makeLUT_WKW_Neon, strength = Some 1.0\<rparr>"
  let ?pastel = "\<lparr>key = ''wes_pastel'', kind = ''lut'', cssValue = None,
           makeLUT = Some makeLUT_WA_Pastel, strength = Some 0.95\<rparr>"
  let ?cs = "[Resize 2 2, Apply ?ctx ?video ''wkw_neon'' 0, Apply ?ctx ?video ''wes_pastel'' 16,
              Apply ?ctx ?video ''wkw_neon'' 33]"
  let ?c1 = "drawMirrored ?br ?ctx ?video 2 2 ''none''"
  let ?frame = "getImageData ?c1 2 2"
  let ?g = "\<lambda>lut s. putImageData (?frame\<lparr>data := gradePixels lut s (data ?frame)\<rparr>) ?c1"
  let ?st0 = "resize newFilterPipeline 2 2"
  let ?st1 = "?st0\<lparr>lutCache := (lutCache ?st0)(''wkw_neon'' \<mapsto> makeLUT_WKW_Neon ()),
                  trace := trace ?st0 @ [BuildLUT ''wkw_neon'']\<rparr>"
  let ?st2 = "?st1\<lparr>lutCache := (lutCache ?st1)(''wes_pastel'' \<mapsto> makeLUT_WA_Pastel ()),
                  trace := trace ?st1 @ [BuildLUT ''wes_pastel'']\<rparr>"
  have nz: "(2::nat) \<noteq> 0" by simp
  note fr = fresh_resized [OF nz nz]
  have mn: "?neon \<in> set FilterList" and mp: "?pastel \<in> set FilterList"
    by (simp_all add: FilterList_def)
  note T = lut_built_once [of ?br ?cs]
  note A = T [THEN conjunct2, THEN conjunct1, rule_format]
  have a0: "pipeline_apply ?br ?st0 ?ctx ?video ''wkw_neon'' 0 = Inr (?st1, ?g (makeLUT_WKW_Neon ()) 1)"
    using A [of ?st0 ?neon ?ctx ?video 0] mn by (simp add: fr Let_def)
  have a1: "pipeline_apply ?br ?st1 ?ctx ?video ''wes_pastel'' 16
            = Inr (?st2, ?g (makeLUT_WA_Pastel ()) 0.95)"
    using A [of ?st1 ?pastel ?ctx ?video 16] mp by (simp add: fr Let_def)
  have a2: "pipeline_apply ?br ?st2 ?ctx ?video ''wkw_neon'' 33
            = Inr (?st2, ?g (makeLUT_WKW_Neon ()) 1)"
    using A [of ?st2 ?neon ?ctx ?video 33] mn by (simp add: fr Let_def)
  have r3: "runCalls ?br ?st2 [Apply ?ctx ?video ''wkw_neon'' 33]
      = Inr (?st2, [?g (makeLUT_WKW_Neon ()) 1])"
    by (rule runCalls_Apply_Inr [OF a2 runCalls.simps(1)])
  have r2: "runCalls ?br ?st1 [Apply ?ctx ?video ''wes_pastel'' 16, Apply ?ctx ?video ''wkw_neon'' 33]
      = Inr (?st2, [?g (makeLUT_WA_Pastel ()) 0.95, ?g (makeLUT_WKW_Neon ()) 1])"
    by (rule runCalls_Apply_Inr [OF a1 r3])
  have r1: "runCalls ?br ?st0 [Apply ?ctx ?video ''wkw_neon'' 0, Apply ?ctx ?video ''wes_pastel'' 16,
                              Apply ?ctx ?video ''wkw_neon'' 33]
      = Inr (?st2, [?g (makeLUT_WKW_Neon ()) 1, ?g (makeLUT_WA_Pastel ()) 0.95,
                    ?g (makeLUT_WKW_Neon ()) 1])"
    by (rule runCalls_Apply_Inr [OF a0 r2])
  have run: "runCalls ?br newFilterPipeline ?cs
      = Inr (?st2, [?g (makeLUT_WKW_Neon ()) 1, ?g (makeLUT_WA_Pastel ()) 0.95,
                    ?g (makeLUT_WKW_Neon ()) 1])"
    unfolding runCalls.simps(2) by (rule r1)
  show ?thesis
    unfolding run by (simp add: fr Let_def)
qed

end
